theory Spec2Isabelle
  imports Main "HOL-Library.Word"
begin

section \<open>Timer support (src/src/timer.c)\<close>

text \<open>
  A shallow embedding of the timer module of \<^verbatim>\<open>timer.c\<close>: the records behind
  \<^verbatim>\<open>TimerRec\<close> and the static \<^verbatim>\<open>TimerModule self\<close>, the private
  list routines, one iteration of the loop of \<^verbatim>\<open>TimerThread\<close>, and the public
  \<^verbatim>\<open>LCUITimer_*\<close> functions.

  Conventions of the model.
  \<^item> A \<^verbatim>\<open>Timer\<close> pointer is an address; \<^verbatim>\<open>NULL\<close> is \<open>None\<close> of
    \<open>addr option\<close>. The contents of timer blocks are a store \<open>mem\<close> from addresses to
    records, and \<open>live\<close> is the set of blocks that are allocated. A block returned by
    \<^verbatim>\<open>malloc\<close> keeps whatever the store held there (its contents are indeterminate).
  \<^item> The intrusive \<^verbatim>\<open>LinkedList timer_list\<close> is the list of the addresses of its
    nodes, head first (\<^verbatim>\<open>node.data\<close> always points to the enclosing record).
  \<^item> Times and durations are machine integers: \<^verbatim>\<open>int64_t\<close> and \<^verbatim>\<open>long int\<close>
    (64 bits, the LP64 data model) are 64-bit words, whose \<open>+\<close> and \<open>-\<close> wrap around
    and which the code compares as signed values (\<open><s\<close>, \<open>\<le>s\<close>); \<open>sint\<close> reads the
    signed value. The ids stay integers: \<^verbatim>\<open>int id_count\<close> has its two's complement
    wrap-around written out, and \<^verbatim>\<open>long int id\<close> only ever holds a value of the
    counter.
  \<^item> The clock is a sequence of readings: the \<open>k\<close>-th call of \<^verbatim>\<open>LCUI_GetTime\<close>
    returns \<open>clock w k\<close>, and \<open>ticks\<close> counts the calls made so far.
  \<^item> Every call that leaves the file with an effect (mutex, condition variable, sleeping,
    list surgery, \<^verbatim>\<open>free\<close>, \<^verbatim>\<open>LCUI_PostTask\<close>) is appended to \<open>trace\<close>.
\<close>

subsection \<open>Data model\<close>

type_synonym addr = nat
type_synonym funcptr = nat
type_synonym argptr = nat
type_synonym int64_t = "64 word"
type_synonym long = "64 word"

definition STATE_RUN :: int where
  "STATE_RUN = 1"

definition STATE_PAUSE :: int where
  "STATE_PAUSE = 0"

definition INT_MAX :: int where
  "INT_MAX = 2147483647"

definition INT_MIN :: int where
  "INT_MIN = - 2147483648"

text \<open>\<^verbatim>\<open>struct TimerRec_\<close>; the field \<^verbatim>\<open>id\<close> is \<open>id'\<close> here, and the embedded
  \<^verbatim>\<open>node\<close> is the block's position in \<open>timer_list\<close>.\<close>

record TimerRec =
  state :: int
  reuse :: bool
  id' :: int
  start_time :: int64_t
  pause_time :: int64_t
  total_ms :: long
  pause_ms :: long
  func :: funcptr
  arg :: argptr

text \<open>The calls that leave the file, as events. \<open>ECall\<close> stands for a call through a
  callback pointer, \<^verbatim>\<open>timer->func(timer->arg)\<close>; \<open>EPostTask\<close> for the handoff of
  the pair to \<^verbatim>\<open>LCUI_PostTask\<close>.\<close>

datatype event =
    EMutexLock
  | EMutexUnlock
  | ECondSignal
  | ECondBroadcast
  | ECondTimedWait long
  | EMSleep int
  | ELink addr
  | EAppend addr
  | EUnlink addr
  | EFree addr
  | EPostTask funcptr argptr
  | ECall funcptr argptr
  | ETimeInit
  | EMutexInit
  | ECondInit
  | EThreadCreate
  | EThreadJoin
  | ECondDestroy
  | EMutexDestroy

text \<open>\<^verbatim>\<open>static struct TimerModule self\<close>; \<^verbatim>\<open>sleep_cond\<close>, \<^verbatim>\<open>mutex\<close> and
  \<^verbatim>\<open>tid\<close> are seen through the events on them.\<close>

record TimerModule =
  id_count :: int
  timer_list :: "addr list"
  is_running :: bool

record world = TimerModule +
  mem :: "addr \<Rightarrow> TimerRec"
  live :: "addr set"
  clock :: "nat \<Rightarrow> int64_t"
  ticks :: nat
  trace :: "event list"

datatype fault = NullDereference

subsection \<open>External collaborators\<close>

definition emit :: "event \<Rightarrow> world \<Rightarrow> world" where
  "emit e w = w\<lparr>trace := trace w @ [e]\<rparr>"

definition LCUIMutex_Lock :: "world \<Rightarrow> world" where
  "LCUIMutex_Lock = emit EMutexLock"

definition LCUIMutex_Unlock :: "world \<Rightarrow> world" where
  "LCUIMutex_Unlock = emit EMutexUnlock"

definition LCUICond_Signal :: "world \<Rightarrow> world" where
  "LCUICond_Signal = emit ECondSignal"

definition LCUICond_Broadcast :: "world \<Rightarrow> world" where
  "LCUICond_Broadcast = emit ECondBroadcast"

definition LCUICond_TimedWait :: "long \<Rightarrow> world \<Rightarrow> world" where
  "LCUICond_TimedWait n_ms = emit (ECondTimedWait n_ms)"

definition LCUI_MSleep :: "int \<Rightarrow> world \<Rightarrow> world" where
  "LCUI_MSleep n_ms = emit (EMSleep n_ms)"

definition LCUI_PostTask :: "funcptr \<times> argptr \<Rightarrow> world \<Rightarrow> world" where
  "LCUI_PostTask task = emit (EPostTask (fst task) (snd task))"

definition free :: "addr \<Rightarrow> world \<Rightarrow> world" where
  "free p w = emit (EFree p) (w\<lparr>live := live w - {p}\<rparr>)"

text \<open>\<^verbatim>\<open>LCUI_GetTime\<close> belongs to LCUI's time module, outside \<^verbatim>\<open>src/\<close>: the
  clock is a parameter of the state, and a call consumes its next reading.\<close>

definition LCUI_GetTime :: "world \<Rightarrow> int64_t \<times> world" where
  "LCUI_GetTime w = (clock w (ticks w), w\<lparr>ticks := Suc (ticks w)\<rparr>)"

text \<open>Modelled from the spec: \<^verbatim>\<open>LCUI_GetTimeDelta\<close> is declared in LCUI's time
  header and defined outside \<^verbatim>\<open>src/\<close>. The spec describes the clock source as giving
  "now" and "elapsed since timestamp", and writes the elapsed time as
  \<open>now - start_time\<close>; the subtraction is that of \<^verbatim>\<open>int64_t\<close>.\<close>

definition LCUI_GetTimeDelta :: "int64_t \<Rightarrow> world \<Rightarrow> int64_t \<times> world" where
  "LCUI_GetTimeDelta start w = (case LCUI_GetTime w of (now, w') \<Rightarrow> (now - start, w'))"

text \<open>Modelled from the spec: the \<^verbatim>\<open>LinkedList_*\<close> routines belong to LCUI's list
  library, outside \<^verbatim>\<open>src/\<close>. Following the spec's registry operations,
  \<^verbatim>\<open>LinkedList_Unlink\<close> unlinks the given node, \<^verbatim>\<open>LinkedList_Link\<close> called
  with \<^verbatim>\<open>cur->prev\<close> links the node immediately before \<^verbatim>\<open>cur\<close> (given here by
  its position \<open>k\<close>), and \<^verbatim>\<open>LinkedList_AppendNode\<close> links it at the tail.\<close>

definition LinkedList_Unlink :: "addr \<Rightarrow> world \<Rightarrow> world" where
  "LinkedList_Unlink node w = emit (EUnlink node) (w\<lparr>timer_list := remove1 node (timer_list w)\<rparr>)"

definition LinkedList_Link :: "nat \<Rightarrow> addr \<Rightarrow> world \<Rightarrow> world" where
  "LinkedList_Link k node w =
     emit (ELink node) (w\<lparr>timer_list := take k (timer_list w) @ node # drop k (timer_list w)\<rparr>)"

definition LinkedList_AppendNode :: "addr \<Rightarrow> world \<Rightarrow> world" where
  "LinkedList_AppendNode node w = emit (EAppend node) (w\<lparr>timer_list := timer_list w @ [node]\<rparr>)"

text \<open>Modelled from the spec: \<^verbatim>\<open>LinkedList_Init\<close> and
  \<^verbatim>\<open>LinkedList_ClearData\<close> are outside \<^verbatim>\<open>src/\<close> as well. The spec has
  initialisation establish an empty registry and teardown release every remaining entry
  (here through the destructor passed in) without firing it.\<close>

definition LinkedList_Init :: "world \<Rightarrow> world" where
  "LinkedList_Init w = w\<lparr>timer_list := []\<rparr>"

definition LinkedList_ClearData :: "(addr \<Rightarrow> world \<Rightarrow> world) \<Rightarrow> world \<Rightarrow> world" where
  "LinkedList_ClearData on_destroy w = fold on_destroy (timer_list w) (w\<lparr>timer_list := []\<rparr>)"

text \<open>An assignment through a \<^verbatim>\<open>Timer\<close> pointer.\<close>

definition store :: "addr \<Rightarrow> (TimerRec \<Rightarrow> TimerRec) \<Rightarrow> world \<Rightarrow> world" where
  "store p f w = w\<lparr>mem := (mem w)(p := f (mem w p))\<rparr>"

subsection \<open>Private routines\<close>

text \<open>The loop of \<^verbatim>\<open>TimerList_AddNode\<close>: the position of the first node \<open>cur\<close> with
  \<open>t <= tt\<close>, or \<open>None\<close> when the loop runs off the list. Each visited node costs one
  reading of the clock. \<open>t\<close> and \<open>tt\<close> are \<^verbatim>\<open>int64_t\<close>: the sums wrap, the
  comparison is signed.\<close>

fun TimerList_AddNode_scan :: "int64_t \<Rightarrow> addr list \<Rightarrow> world \<Rightarrow> nat option \<times> world" where
  "TimerList_AddNode_scan t [] w = (None, w)"
| "TimerList_AddNode_scan t (cur # rest) w =
     (let timer = mem w cur in
      case LCUI_GetTimeDelta (start_time timer) w of (tt0, w1) \<Rightarrow>
        let tt = total_ms timer - tt0 + pause_ms timer in
        if t \<le>s tt then (Some 0, w1)
        else (case TimerList_AddNode_scan t rest w1 of (r, w2) \<Rightarrow> (map_option Suc r, w2)))"

definition TimerList_AddNode :: "addr \<Rightarrow> world \<Rightarrow> world" where
  "TimerList_AddNode node w =
     (let timer = mem w node in
      case LCUI_GetTimeDelta (start_time timer) w of (t0, w1) \<Rightarrow>
        let t = total_ms timer - t0 + pause_ms timer in
        case TimerList_AddNode_scan t (timer_list w1) w1 of
          (Some k, w2) \<Rightarrow> LinkedList_Link k node w2
        | (None, w2) \<Rightarrow> LinkedList_AppendNode node w2)"

definition TimerList_Find :: "int \<Rightarrow> world \<Rightarrow> addr option" where
  "TimerList_Find timer_id w = find (\<lambda>node. id' (mem w node) = timer_id) (timer_list w)"

text \<open>One iteration of the \<^verbatim>\<open>while( self.is_running )\<close> loop of \<^verbatim>\<open>TimerThread\<close>,
  entered with the mutex held. The thread runs such iterations for as long as
  \<^verbatim>\<open>self.is_running\<close> holds; between two of them, while the thread waits or sleeps
  without the mutex, the public functions may run (see \<open>reach\<close> below). \<open>lost_ms\<close>
  and \<open>n_ms\<close> are \<^verbatim>\<open>long\<close>: the differences wrap, the comparison is signed.\<close>

definition TimerThread_body :: "world \<Rightarrow> world" where
  "TimerThread_body w =
     (case find (\<lambda>node. state (mem w node) = STATE_RUN) (timer_list w) of
        None \<Rightarrow> LCUIMutex_Lock (LCUI_MSleep 10 (LCUIMutex_Unlock w))
      | Some node \<Rightarrow>
          let timer = mem w node in
          case LCUI_GetTimeDelta (start_time timer) w of (d, w1) \<Rightarrow>
            let lost_ms = d - pause_ms timer in
            if lost_ms <s total_ms timer then
              LCUICond_TimedWait (total_ms timer - lost_ms) w1
            else
              let task = (func timer, arg timer);
                  w2 = LinkedList_Unlink node w1;
                  w3 = (if reuse timer then
                          let w2a = store node (\<lambda>r. r\<lparr>pause_ms := 0\<rparr>) w2 in
                          case LCUI_GetTime w2a of (now, w2b) \<Rightarrow>
                            TimerList_AddNode node (store node (\<lambda>r. r\<lparr>start_time := now\<rparr>) w2b)
                        else free node w2)
              in LCUI_PostTask task w3)"

subsection \<open>Public functions\<close>

text \<open>\<^verbatim>\<open>LCUITimer_Set\<close>; \<open>m\<close> is what \<^verbatim>\<open>malloc\<close> returns. The block is written
  without a check, so a null result faults at the first assignment. The increment
  \<^verbatim>\<open>++self.id_count\<close> of the \<^verbatim>\<open>int\<close> counter wraps from \<open>INT_MAX\<close> to
  \<open>INT_MIN\<close> (the overflow is undefined in C; this is its two's complement result). The
  conversions between \<^verbatim>\<open>int\<close> and \<^verbatim>\<open>long int\<close> around \<^verbatim>\<open>timer->id\<close>
  keep the value.\<close>

definition LCUITimer_Set ::
  "addr option \<Rightarrow> long \<Rightarrow> funcptr \<Rightarrow> argptr \<Rightarrow> bool \<Rightarrow> world \<Rightarrow> fault + (int \<times> world)" where
  "LCUITimer_Set m n_ms fn a ru w =
     (if \<not> is_running w then Inr (- 1, w)
      else
        let w1 = LCUIMutex_Lock w in
        case m of
          None \<Rightarrow> Inl NullDereference
        | Some timer \<Rightarrow>
            let w2 = w1\<lparr>live := insert timer (live w1)\<rparr>;
                w3 = store timer (\<lambda>r. r\<lparr>arg := a\<rparr>) w2;
                w4 = store timer (\<lambda>r. r\<lparr>func := fn\<rparr>) w3;
                w5 = store timer (\<lambda>r. r\<lparr>reuse := ru\<rparr>) w4;
                w6 = store timer (\<lambda>r. r\<lparr>pause_ms := 0\<rparr>) w5;
                w7 = store timer (\<lambda>r. r\<lparr>total_ms := n_ms\<rparr>) w6;
                w8 = store timer (\<lambda>r. r\<lparr>state := STATE_RUN\<rparr>) w7
            in
            let w9 = w8\<lparr>id_count := (if id_count w8 = INT_MAX then INT_MIN
                                        else id_count w8 + 1)\<rparr>;
                w10 = store timer (\<lambda>r. r\<lparr>id' := id_count w9\<rparr>) w9
            in
            case LCUI_GetTime w10 of (now, w11) \<Rightarrow>
              let w12 = store timer (\<lambda>r. r\<lparr>start_time := now\<rparr>) w11;
                  w13 = TimerList_AddNode timer w12;
                  w14 = LCUICond_Signal w13;
                  w15 = LCUIMutex_Unlock w14
              in Inr (id' (mem w15 timer), w15))"

definition LCUITimer_SetTimeout ::
  "addr option \<Rightarrow> long \<Rightarrow> funcptr \<Rightarrow> argptr \<Rightarrow> world \<Rightarrow> fault + (int \<times> world)" where
  "LCUITimer_SetTimeout m n_ms callback a w = LCUITimer_Set m n_ms callback a False w"

definition LCUITimer_SetInterval ::
  "addr option \<Rightarrow> long \<Rightarrow> funcptr \<Rightarrow> argptr \<Rightarrow> world \<Rightarrow> fault + (int \<times> world)" where
  "LCUITimer_SetInterval m n_ms callback a w = LCUITimer_Set m n_ms callback a True w"

definition LCUITimer_Free :: "int \<Rightarrow> world \<Rightarrow> int \<times> world" where
  "LCUITimer_Free timer_id w =
     (if \<not> is_running w then (- 1, w)
      else
        let w1 = LCUIMutex_Lock w in
        case TimerList_Find timer_id w1 of
          None \<Rightarrow> (- 1, LCUIMutex_Unlock w1)
        | Some timer \<Rightarrow>
            let w2 = LinkedList_Unlink timer w1;
                w3 = free timer w2;
                w4 = LCUICond_Signal w3
            in (0, LCUIMutex_Unlock w4))"

definition LCUITimer_Pause :: "int \<Rightarrow> world \<Rightarrow> int \<times> world" where
  "LCUITimer_Pause timer_id w =
     (if \<not> is_running w then (- 1, w)
      else
        let w1 = LCUIMutex_Lock w;
            timer = TimerList_Find timer_id w1;
            w4 = (case timer of
                    Some p \<Rightarrow>
                      (case LCUI_GetTime w1 of (now, w2) \<Rightarrow>
                         let w3 = store p (\<lambda>r. r\<lparr>pause_time := now\<rparr>) w2
                         in store p (\<lambda>r. r\<lparr>state := STATE_PAUSE\<rparr>) w3)
                  | None \<Rightarrow> w1);
            w5 = LCUICond_Signal w4;
            w6 = LCUIMutex_Unlock w5
        in (if timer \<noteq> None then 0 else - 1, w6))"

definition LCUITimer_Continue :: "int \<Rightarrow> world \<Rightarrow> int \<times> world" where
  "LCUITimer_Continue timer_id w =
     (if \<not> is_running w then (- 1, w)
      else
        let w1 = LCUIMutex_Lock w;
            timer = TimerList_Find timer_id w1;
            w4 = (case timer of
                    Some p \<Rightarrow>
                      (case LCUI_GetTimeDelta (pause_time (mem w1 p)) w1 of (d, w2) \<Rightarrow>
                         let w3 = store p (\<lambda>r. r\<lparr>pause_ms := pause_ms r + d\<rparr>) w2
                         in store p (\<lambda>r. r\<lparr>state := STATE_RUN\<rparr>) w3)
                  | None \<Rightarrow> w1);
            w5 = LCUICond_Signal w4;
            w6 = LCUIMutex_Unlock w5
        in (if timer \<noteq> None then 0 else - 1, w6))"

definition LCUITimer_Reset :: "int \<Rightarrow> long \<Rightarrow> world \<Rightarrow> int \<times> world" where
  "LCUITimer_Reset timer_id n_ms w =
     (if \<not> is_running w then (- 1, w)
      else
        let w1 = LCUIMutex_Lock w;
            timer = TimerList_Find timer_id w1;
            w5 = (case timer of
                    Some p \<Rightarrow>
                      let w2 = store p (\<lambda>r. r\<lparr>pause_ms := 0\<rparr>) w1;
                          w3 = store p (\<lambda>r. r\<lparr>total_ms := n_ms\<rparr>) w2
                      in (case LCUI_GetTime w3 of (now, w4) \<Rightarrow>
                            store p (\<lambda>r. r\<lparr>start_time := now\<rparr>) w4)
                  | None \<Rightarrow> w1);
            w6 = LCUICond_Signal w5;
            w7 = LCUIMutex_Unlock w6
        in (if timer \<noteq> None then 0 else - 1, w7))"

definition LCUI_InitTimer :: "world \<Rightarrow> world" where
  "LCUI_InitTimer w =
     (let w1 = emit ETimeInit w;
          w2 = emit EMutexInit w1;
          w3 = emit ECondInit w2;
          w4 = LinkedList_Init w3;
          w5 = emit EThreadCreate w4
      in w5\<lparr>is_running := True\<rparr>)"

definition LCUI_FreeTimer :: "world \<Rightarrow> world" where
  "LCUI_FreeTimer w =
     (let w1 = w\<lparr>is_running := False\<rparr>;
          w2 = LCUIMutex_Lock w1;
          w3 = LCUICond_Broadcast w2;
          w4 = LCUIMutex_Unlock w3;
          w5 = emit EThreadJoin w4;
          w6 = LinkedList_ClearData free w5;
          w7 = emit ECondDestroy w6
      in emit EMutexDestroy w7)"

subsection \<open>Histories of the module\<close>

text \<open>The public functions hold the mutex while they touch the registry, and the timer thread
  holds it for each iteration of its loop outside its waits, so a history of the module is a
  sequence of whole calls and whole iterations. \<open>reach ids w\<close>: the state \<open>w\<close> is reached
  from the zero-initialised static module before the id counter has wrapped, and \<open>ids\<close>
  are the ids handed out on the way, in order. A block returned by \<^verbatim>\<open>malloc\<close> is
  one that is not allocated.\<close>

inductive reach :: "int list \<Rightarrow> world \<Rightarrow> bool" where
  start: "id_count w = 0 \<Longrightarrow> timer_list w = [] \<Longrightarrow> \<not> is_running w \<Longrightarrow> reach [] w"
| init: "reach ids w \<Longrightarrow> reach ids (LCUI_InitTimer w)"
| shutdown: "reach ids w \<Longrightarrow> reach ids (LCUI_FreeTimer w)"
| set: "reach ids w \<Longrightarrow> is_running w \<Longrightarrow> p \<notin> live w \<Longrightarrow> id_count w \<noteq> INT_MAX \<Longrightarrow>
        LCUITimer_Set (Some p) n_ms fn a ru w = Inr (i, w') \<Longrightarrow> reach (ids @ [i]) w'"
| free: "reach ids w \<Longrightarrow> reach ids (snd (LCUITimer_Free i w))"
| pause: "reach ids w \<Longrightarrow> reach ids (snd (LCUITimer_Pause i w))"
| continue: "reach ids w \<Longrightarrow> reach ids (snd (LCUITimer_Continue i w))"
| reset: "reach ids w \<Longrightarrow> reach ids (snd (LCUITimer_Reset i n_ms w))"
| tick: "reach ids w \<Longrightarrow> is_running w \<Longrightarrow> reach ids (TimerThread_body w)"

text \<open>The ids of the entries in the registry, head first, and the invariant of the
  histories: the counter bounds every id handed out, ids were handed out in increasing order,
  the registry holds distinct allocated blocks, and their ids are distinct ids handed out.\<close>

definition entry_ids :: "world \<Rightarrow> int list" where
  "entry_ids w = map (\<lambda>p. id' (mem w p)) (timer_list w)"

definition registry_ok :: "int list \<Rightarrow> world \<Rightarrow> bool" where
  "registry_ok ids w \<longleftrightarrow>
     0 \<le> id_count w \<and> sorted_wrt (<) ids \<and> (\<forall>i \<in> set ids. 0 < i \<and> i \<le> id_count w) \<and>
     distinct (timer_list w) \<and> set (timer_list w) \<subseteq> live w \<and>
     (\<forall>p \<in> set (timer_list w). id' (mem w p) \<in> set ids) \<and>
     inj_on (\<lambda>p. id' (mem w p)) (set (timer_list w))"

subsection \<open>Vocabulary of the specification\<close>

text \<open>The spec's derived quantities, written from its own formulas:
  \<open>remaining_ms = duration_ms - (now - start_time) + accumulated_pause_ms\<close> and
  \<open>elapsed = now - start_time - accumulated_pause_ms\<close>, as the machine computes them on
  64-bit values. \<open>fits_long\<close> is the range of \<^verbatim>\<open>long\<close>: where the integer value of a
  formula fits, the machine value is that integer.\<close>

definition remaining_ms :: "TimerRec \<Rightarrow> int64_t \<Rightarrow> int64_t" where
  "remaining_ms r now = total_ms r - (now - start_time r) + pause_ms r"

definition elapsed_ms :: "TimerRec \<Rightarrow> int64_t \<Rightarrow> long" where
  "elapsed_ms r now = now - start_time r - pause_ms r"

definition fits_long :: "int \<Rightarrow> bool" where
  "fits_long x \<longleftrightarrow> - 9223372036854775808 \<le> x \<and> x \<le> 9223372036854775807"

text \<open>The events a step appends to the trace, and the test for a handoff to the
  dispatcher.\<close>

definition new_events :: "world \<Rightarrow> world \<Rightarrow> event list" where
  "new_events w w' = drop (length (trace w)) (trace w')"

fun is_post :: "event \<Rightarrow> bool" where
  "is_post (EPostTask f x) = True"
| "is_post _ = False"

fun is_call :: "event \<Rightarrow> bool" where
  "is_call (ECall f x) = True"
| "is_call _ = False"

text \<open>An iteration of the timer thread that starts in \<open>w\<close> fires the entry at \<open>p\<close>: it
  unlinks the entry and hands its callback and argument to the dispatcher.\<close>

definition fired :: "world \<Rightarrow> addr \<Rightarrow> bool" where
  "fired w p \<longleftrightarrow>
     EUnlink p \<in> set (new_events w (TimerThread_body w)) \<and>
     EPostTask (func (mem w p)) (arg (mem w p)) \<in> set (new_events w (TimerThread_body w))"

subsection \<open>Sample states\<close>

text \<open>A registry of two timers: a running one-shot timer (id 1) at address 10 and a paused
  interval timer (id 2) at address 20, with a clock that reads 100, 101, 102, ...\<close>

definition blank :: TimerRec where
  "blank = \<lparr>state = 0, reuse = False, id' = 0, start_time = 0, pause_time = 0,
             total_ms = 0, pause_ms = 0, func = 0, arg = 0\<rparr>"

definition timerA :: TimerRec where
  "timerA = \<lparr>state = 1, reuse = False, id' = 1, start_time = 0, pause_time = 0,
              total_ms = 50, pause_ms = 0, func = 7, arg = 8\<rparr>"

definition timerB :: TimerRec where
  "timerB = \<lparr>state = 0, reuse = True, id' = 2, start_time = 10, pause_time = 60,
              total_ms = 200, pause_ms = 5, func = 9, arg = 4\<rparr>"

definition sample :: world where
  "sample = \<lparr>id_count = 2, timer_list = [10, 20], is_running = True,
              mem = (\<lambda>_. blank)(10 := timerA, 20 := timerB), live = {10, 20},
              clock = (\<lambda>k. 100 + of_nat k), ticks = 0, trace = []\<rparr>"

text \<open>The sample state with a clock that reads 20, 21, ...: the first timer is not due yet.\<close>

definition early :: world where
  "early = sample\<lparr>clock := (\<lambda>k. 20 + of_nat k)\<rparr>"

text \<open>The interval timer running and at the head of the registry, with a clock that reads
  300, 301, ...: it is due.\<close>

definition again :: world where
  "again = sample\<lparr>timer_list := [20, 10],
                 mem := (\<lambda>_. blank)(10 := timerA, 20 := timerB\<lparr>state := 1\<rparr>),
                 clock := (\<lambda>k. 300 + of_nat k)\<rparr>"

text \<open>The sample state with a block at address 30 that is about to be linked: when it is
  compared with the entry at address 20 both have 113 ms left.\<close>

definition timerC :: TimerRec where
  "timerC = \<lparr>state = 1, reuse = False, id' = 3, start_time = 100, pause_time = 0,
              total_ms = 113, pause_ms = 0, func = 5, arg = 6\<rparr>"

definition tie :: world where
  "tie = sample\<lparr>mem := (\<lambda>_. blank)(10 := timerA, 20 := timerB, 30 := timerC)\<rparr>"

text \<open>The sample state with a block at address 30 whose duration is the least
  \<^verbatim>\<open>long\<close>, started 1 ms before the first clock reading: its remaining time wraps to
  the greatest value.\<close>

definition timerD :: TimerRec where
  "timerD = \<lparr>state = 1, reuse = False, id' = 3, start_time = 99, pause_time = 0,
              total_ms = - 9223372036854775808, pause_ms = 0, func = 5, arg = 6\<rparr>"

definition low :: world where
  "low = sample\<lparr>mem := (\<lambda>_. blank)(10 := timerA, 20 := timerB, 30 := timerD)\<rparr>"

text \<open>A registry with one running timer of the greatest duration that has 10 ms of pause on
  its account at the moment it was started: the wait computed for it wraps.\<close>

definition timerE :: TimerRec where
  "timerE = \<lparr>state = 1, reuse = False, id' = 1, start_time = 100, pause_time = 90,
              total_ms = 9223372036854775807, pause_ms = 10, func = 7, arg = 8\<rparr>"

definition brim :: world where
  "brim = sample\<lparr>id_count := 1, timer_list := [10], mem := (\<lambda>_. blank)(10 := timerE),
                live := {10}\<rparr>"

text \<open>The paused interval timer alone in the registry, with a clock that reads 100, 115,
  130, ...; the state after it is reset to 30 ms at 100, and the state after it is then
  continued at 115.\<close>

definition solo :: world where
  "solo = sample\<lparr>timer_list := [20], clock := (\<lambda>k. 100 + 15 * of_nat k)\<rparr>"

definition solo_reset :: world where
  "solo_reset = snd (LCUITimer_Reset 2 30 solo)"

definition solo_resumed :: world where
  "solo_resumed = snd (LCUITimer_Continue 2 solo_reset)"

text \<open>The sample state with the id counter at its bound.\<close>

definition full :: world where
  "full = sample\<lparr>id_count := 2147483647\<rparr>"

text \<open>The zero-initialised module, and the state after \<^verbatim>\<open>LCUI_InitTimer\<close> and one
  \<^verbatim>\<open>LCUITimer_SetTimeout\<close> of 50 ms whose block is at address 10.\<close>

definition boot :: world where
  "boot = \<lparr>id_count = 0, timer_list = [], is_running = False,
            mem = (\<lambda>_. blank), live = {},
            clock = (\<lambda>k. 100 + of_nat k), ticks = 0, trace = []\<rparr>"

definition one :: world where
  "one = (case LCUITimer_SetTimeout (Some 10) 50 7 8 (LCUI_InitTimer boot) of
            Inr (i, w) \<Rightarrow> w
          | Inl e \<Rightarrow> boot)"

subsection \<open>Basic facts\<close>

lemmas prims = emit_def LCUIMutex_Lock_def LCUIMutex_Unlock_def LCUICond_Signal_def
  LCUICond_Broadcast_def LCUICond_TimedWait_def LCUI_MSleep_def LCUI_PostTask_def free_def
  LCUI_GetTime_def LCUI_GetTimeDelta_def LinkedList_Unlink_def LinkedList_Link_def
  LinkedList_AppendNode_def store_def

lemmas sample_defs = sample_def early_def again_def tie_def low_def brim_def solo_def full_def
  timerA_def timerB_def timerC_def timerD_def timerE_def blank_def STATE_RUN_def STATE_PAUSE_def

lemma world_eq_iff:
  fixes w w' :: world
  shows "w = w' \<longleftrightarrow>
     id_count w = id_count w' \<and> timer_list w = timer_list w' \<and> is_running w = is_running w' \<and>
     mem w = mem w' \<and> live w = live w' \<and> clock w = clock w' \<and> ticks w = ticks w' \<and>
     trace w = trace w'"
  by (cases w; cases w') auto

lemma new_events_append [simp]:
  "trace w' = trace w @ es \<Longrightarrow> new_events w w' = es"
  by (simp add: new_events_def)

lemma find_Some_mem: "find P xs = Some p \<Longrightarrow> p \<in> set xs \<and> P p"
  by (auto simp add: find_Some_iff)

lemma TimerList_Find_frame [simp]:
  "TimerList_Find i (w\<lparr>trace := tr\<rparr>) = TimerList_Find i w"
  "TimerList_Find i (w\<lparr>ticks := k\<rparr>) = TimerList_Find i w"
  "TimerList_Find i (w\<lparr>live := l\<rparr>) = TimerList_Find i w"
  by (simp_all add: TimerList_Find_def)

lemma TimerList_Find_mem:
  "TimerList_Find i w = Some p \<Longrightarrow> p \<in> set (timer_list w) \<and> id' (mem w p) = i"
  unfolding TimerList_Find_def by (rule find_Some_mem)

lemma TimerList_Find_None_iff:
  "TimerList_Find i w = None \<longleftrightarrow> (\<forall>p \<in> set (timer_list w). id' (mem w p) \<noteq> i)"
  unfolding TimerList_Find_def find_None_iff by blast

lemma Find_None_entry_ids:
  "TimerList_Find i w = None \<longleftrightarrow> i \<notin> set (entry_ids w)"
  by (auto simp add: TimerList_Find_None_iff entry_ids_def)

lemma Find_empty: "timer_list w = [] \<Longrightarrow> TimerList_Find i w = None"
  by (simp add: TimerList_Find_def)

lemma sint_in_range:
  fixes x :: "64 word"
  assumes "x = word_of_int k" and "fits_long k"
  shows "sint x = k"
proof -
  have "sint x = signed_take_bit 63 k"
    unfolding assms(1) by (simp only: sint_sbintrunc') simp
  also have "\<dots> = k"
    using assms(2) by (intro signed_take_bit_int_eq_self) (simp_all add: fits_long_def)
  finally show ?thesis .
qed

lemma elapsed_ms_sint:
  "fits_long (sint now - sint (start_time r) - sint (pause_ms r)) \<Longrightarrow>
     sint (elapsed_ms r now) = sint now - sint (start_time r) - sint (pause_ms r)"
  by (rule sint_in_range) (simp_all add: elapsed_ms_def)

lemma remaining_ms_sint:
  "fits_long (sint (total_ms r) - (sint now - sint (start_time r)) + sint (pause_ms r)) \<Longrightarrow>
     sint (remaining_ms r now) =
       sint (total_ms r) - (sint now - sint (start_time r)) + sint (pause_ms r)"
  by (rule sint_in_range) (simp_all add: remaining_ms_def)

lemma diff_sint:
  fixes a b :: "64 word"
  shows "fits_long (sint a - sint b) \<Longrightarrow> sint (a - b) = sint a - sint b"
  by (rule sint_in_range) simp_all

lemma set_link: "set (take k xs @ p # drop k xs) = insert p (set xs)"
proof -
  have "set (take k xs @ p # drop k xs) = insert p (set (take k xs @ drop k xs))"
    by (simp only: set_append set_simps) blast
  then show ?thesis by simp
qed

lemma distinct_link:
  "distinct (take k xs @ p # drop k xs) \<longleftrightarrow> distinct xs \<and> p \<notin> set xs"
proof -
  have "distinct (take k xs @ p # drop k xs) \<longleftrightarrow>
        distinct (take k xs @ drop k xs) \<and> p \<notin> set (take k xs @ drop k xs)"
    by (simp only: distinct_append distinct.simps set_append set_simps) blast
  then show ?thesis by simp
qed


subsection \<open>The insertion scan\<close>

lemma scan_world:
  "TimerList_AddNode_scan t xs w = (r, w') \<Longrightarrow>
     w' = w\<lparr>ticks := ticks w + (case r of None \<Rightarrow> length xs | Some k \<Rightarrow> Suc k)\<rparr>"
proof (induction xs arbitrary: w r w')
  case Nil
  then show ?case by simp
next
  case (Cons cur rest)
  obtain r1 w1 where eq: "TimerList_AddNode_scan t rest (w\<lparr>ticks := Suc (ticks w)\<rparr>) = (r1, w1)"
    by fastforce
  from Cons.IH [OF eq] Cons.prems show ?case
    by (cases r1) (auto simp add: Let_def LCUI_GetTimeDelta_def LCUI_GetTime_def eq
        split: if_splits)
qed

lemma scan_Some:
  "fst (TimerList_AddNode_scan t xs w) = Some k \<Longrightarrow>
     k < length xs \<and> t \<le>s remaining_ms (mem w (xs ! k)) (clock w (ticks w + k)) \<and>
     (\<forall>j < k. remaining_ms (mem w (xs ! j)) (clock w (ticks w + j)) <s t)"
proof (induction xs arbitrary: w k)
  case Nil
  then show ?case by simp
next
  case (Cons cur rest)
  show ?case
  proof (cases "t \<le>s remaining_ms (mem w cur) (clock w (ticks w))")
    case True
    with Cons.prems show ?thesis
      by (simp add: Let_def LCUI_GetTimeDelta_def LCUI_GetTime_def remaining_ms_def)
  next
    case False
    with Cons.prems obtain k' where k: "k = Suc k'"
      and r: "fst (TimerList_AddNode_scan t rest (w\<lparr>ticks := Suc (ticks w)\<rparr>)) = Some k'"
      by (auto simp add: Let_def LCUI_GetTimeDelta_def LCUI_GetTime_def remaining_ms_def
          split: prod.splits)
    from Cons.IH [OF r] False show ?thesis
      by (auto simp add: k less_Suc_eq_0_disj)
  qed
qed

lemma scan_None:
  "fst (TimerList_AddNode_scan t xs w) = None \<Longrightarrow>
     (\<forall>j < length xs. remaining_ms (mem w (xs ! j)) (clock w (ticks w + j)) <s t)"
proof (induction xs arbitrary: w)
  case Nil
  then show ?case by simp
next
  case (Cons cur rest)
  show ?case
  proof (cases "t \<le>s remaining_ms (mem w cur) (clock w (ticks w))")
    case True
    with Cons.prems show ?thesis
      by (simp add: Let_def LCUI_GetTimeDelta_def LCUI_GetTime_def remaining_ms_def)
  next
    case False
    with Cons.prems
    have r: "fst (TimerList_AddNode_scan t rest (w\<lparr>ticks := Suc (ticks w)\<rparr>)) = None"
      by (auto simp add: Let_def LCUI_GetTimeDelta_def LCUI_GetTime_def remaining_ms_def
          split: prod.splits)
    from Cons.IH [OF r] False show ?thesis
      by (auto simp add: less_Suc_eq_0_disj)
  qed
qed

lemma TimerList_AddNode_position:
  fixes w node
  defines "xs \<equiv> timer_list w"
    and "t \<equiv> remaining_ms (mem w node) (clock w (ticks w))"
  shows "\<exists>k \<le> length xs.
           TimerList_AddNode node w =
             w\<lparr>ticks := Suc (ticks w) + min (Suc k) (length xs),
               timer_list := take k xs @ node # drop k xs,
               trace := trace w @ [if k < length xs then ELink node else EAppend node]\<rparr> \<and>
           (\<forall>j < k. remaining_ms (mem w (xs ! j)) (clock w (Suc (ticks w) + j)) <s t) \<and>
           (k < length xs \<longrightarrow> t \<le>s remaining_ms (mem w (xs ! k)) (clock w (Suc (ticks w) + k)))"
proof -
  let ?w1 = "w\<lparr>ticks := Suc (ticks w)\<rparr>"
  let ?r = "TimerList_AddNode_scan t xs ?w1"
  have A: "TimerList_AddNode node w =
     (case ?r of (Some k, w2) \<Rightarrow> LinkedList_Link k node w2
               | (None, w2) \<Rightarrow> LinkedList_AppendNode node w2)"
    by (simp add: TimerList_AddNode_def Let_def LCUI_GetTimeDelta_def LCUI_GetTime_def
        remaining_ms_def t_def xs_def)
  show ?thesis
  proof (cases "fst ?r")
    case None
    then obtain w2 where eq: "?r = (None, w2)"
      by (cases ?r) simp
    have W: "w2 = w\<lparr>ticks := Suc (ticks w) + length xs\<rparr>"
      using scan_world [OF eq] by simp
    have "TimerList_AddNode node w = LinkedList_AppendNode node w2"
      by (simp add: A eq)
    then have "TimerList_AddNode node w =
             w\<lparr>ticks := Suc (ticks w) + min (Suc (length xs)) (length xs),
               timer_list := take (length xs) xs @ node # drop (length xs) xs,
               trace := trace w @ [EAppend node]\<rparr>"
      by (simp add: W LinkedList_AppendNode_def emit_def xs_def)
    moreover from scan_None [OF None]
    have "\<forall>j < length xs. remaining_ms (mem w (xs ! j)) (clock w (Suc (ticks w) + j)) <s t"
      by simp
    ultimately show ?thesis
      by (intro exI [of _ "length xs"]) simp
  next
    case (Some k)
    from scan_Some [OF Some] have k: "k < length xs"
      and le: "t \<le>s remaining_ms (mem w (xs ! k)) (clock w (Suc (ticks w) + k))"
      and lt: "\<forall>j < k. remaining_ms (mem w (xs ! j)) (clock w (Suc (ticks w) + j)) <s t"
      by simp_all
    from Some obtain w2 where eq: "?r = (Some k, w2)"
      by (cases ?r) simp
    have W: "w2 = w\<lparr>ticks := Suc (ticks w) + Suc k\<rparr>"
      using scan_world [OF eq] by simp
    have "TimerList_AddNode node w = LinkedList_Link k node w2"
      by (simp add: A eq)
    then have "TimerList_AddNode node w =
             w\<lparr>ticks := Suc (ticks w) + min (Suc k) (length xs),
               timer_list := take k xs @ node # drop k xs,
               trace := trace w @ [ELink node]\<rparr>"
      using k by (simp add: W LinkedList_Link_def emit_def xs_def min_def)
    with k le lt show ?thesis
      by (intro exI [of _ k]) simp
  qed
qed

text \<open>Claim C2. \<^verbatim>\<open>TimerList_AddNode\<close> computes the remaining time \<open>t\<close> of the new
  node at its first clock reading, then walks the registry from the head, recomputing the
  remaining time of each entry it visits at the reading taken for that entry. The node is
  linked at the position \<open>k\<close> of the first entry whose remaining time is at least \<open>t\<close>
  (every entry before it has strictly less), and appended at the tail when there is none.
  The entries themselves are not changed. An entry whose remaining time equals \<open>t\<close> ends up
  behind the new node. The remaining times are the 64-bit values the code computes and
  compares as signed numbers; wherever \<open>duration - (now - start_time) + pause\<close> fits in 64
  bits the value computed is that integer.\<close>

theorem TimerList_AddNode_order:
  fixes w node
  defines "xs \<equiv> timer_list w"
    and "t \<equiv> remaining_ms (mem w node) (clock w (ticks w))"
  shows "(\<exists>k \<le> length xs.
           timer_list (TimerList_AddNode node w) = take k xs @ node # drop k xs \<and>
           mem (TimerList_AddNode node w) = mem w \<and>
           (\<forall>j < k. remaining_ms (mem w (xs ! j)) (clock w (Suc (ticks w) + j)) <s t) \<and>
           (k < length xs \<longrightarrow>
              t \<le>s remaining_ms (mem w (xs ! k)) (clock w (Suc (ticks w) + k))) \<and>
           (\<forall>j < length xs.
              remaining_ms (mem w (xs ! j)) (clock w (Suc (ticks w) + j)) = t \<longrightarrow> k \<le> j) \<and>
           new_events w (TimerList_AddNode node w) =
             [if k < length xs then ELink node else EAppend node]) \<and>
         (\<forall>r now.
            fits_long (sint (total_ms r) - (sint now - sint (start_time r)) + sint (pause_ms r)) \<longrightarrow>
            sint (remaining_ms r now) =
              sint (total_ms r) - (sint now - sint (start_time r)) + sint (pause_ms r))"
proof -
  from TimerList_AddNode_position [of w node]
  obtain k where k: "k \<le> length xs"
    and E: "TimerList_AddNode node w =
             w\<lparr>ticks := Suc (ticks w) + min (Suc k) (length xs),
               timer_list := take k xs @ node # drop k xs,
               trace := trace w @ [if k < length xs then ELink node else EAppend node]\<rparr>"
    and lt: "\<forall>j < k. remaining_ms (mem w (xs ! j)) (clock w (Suc (ticks w) + j)) <s t"
    and le: "k < length xs \<longrightarrow> t \<le>s remaining_ms (mem w (xs ! k)) (clock w (Suc (ticks w) + k))"
    unfolding xs_def t_def by blast
  have tie: "\<forall>j < length xs.
      remaining_ms (mem w (xs ! j)) (clock w (Suc (ticks w) + j)) = t \<longrightarrow> k \<le> j"
  proof (intro allI impI)
    fix j
    assume "remaining_ms (mem w (xs ! j)) (clock w (Suc (ticks w) + j)) = t"
    with lt have "\<not> j < k" by force
    then show "k \<le> j" by simp
  qed
  have "timer_list (TimerList_AddNode node w) = take k xs @ node # drop k xs"
    and "mem (TimerList_AddNode node w) = mem w"
    and "new_events w (TimerList_AddNode node w) =
           [if k < length xs then ELink node else EAppend node]"
    by (simp_all add: E)
  with k lt le tie have "\<exists>k \<le> length xs.
           timer_list (TimerList_AddNode node w) = take k xs @ node # drop k xs \<and>
           mem (TimerList_AddNode node w) = mem w \<and>
           (\<forall>j < k. remaining_ms (mem w (xs ! j)) (clock w (Suc (ticks w) + j)) <s t) \<and>
           (k < length xs \<longrightarrow>
              t \<le>s remaining_ms (mem w (xs ! k)) (clock w (Suc (ticks w) + k))) \<and>
           (\<forall>j < length xs.
              remaining_ms (mem w (xs ! j)) (clock w (Suc (ticks w) + j)) = t \<longrightarrow> k \<le> j) \<and>
           new_events w (TimerList_AddNode node w) =
             [if k < length xs then ELink node else EAppend node]"
    by blast
  moreover have "\<forall>r now.
            fits_long (sint (total_ms r) - (sint now - sint (start_time r)) + sint (pause_ms r)) \<longrightarrow>
            sint (remaining_ms r now) =
              sint (total_ms r) - (sint now - sint (start_time r)) + sint (pause_ms r)"
    by (intro allI impI) (rule remaining_ms_sint)
  ultimately show ?thesis by (rule conjI)
qed

theorem TimerList_AddNode_order_witness:
  "timer_list tie = [10, 20] \<and>
   remaining_ms (mem tie 30) (clock tie (ticks tie)) = 113 \<and>
   remaining_ms (mem tie 10) (clock tie 1) = - 51 \<and>
   remaining_ms (mem tie 20) (clock tie 2) = 113 \<and>
   timer_list (TimerList_AddNode 30 tie) = [10, 30, 20] \<and>
   new_events tie (TimerList_AddNode 30 tie) = [ELink 30] \<and>
   total_ms (mem low 30) = - 9223372036854775808 \<and>
   remaining_ms (mem low 30) (clock low (ticks low)) = 9223372036854775807 \<and>
   timer_list (TimerList_AddNode 30 low) = [10, 20, 30] \<and>
   sint (remaining_ms (mem tie 10) (clock tie 1)) = - 51"
proof -
  have a: "timer_list tie = [10, 20]"
    "remaining_ms (mem tie 30) (clock tie (ticks tie)) = 113"
    "remaining_ms (mem tie 10) (clock tie 1) = - 51"
    "remaining_ms (mem tie 20) (clock tie 2) = 113"
    "total_ms (mem low 30) = - 9223372036854775808"
    "remaining_ms (mem low 30) (clock low (ticks low)) = 9223372036854775807"
    by (simp_all add: remaining_ms_def sample_defs)
  have b: "timer_list (TimerList_AddNode 30 tie) = [10, 30, 20]"
    "new_events tie (TimerList_AddNode 30 tie) = [ELink 30]"
    "timer_list (TimerList_AddNode 30 low) = [10, 20, 30]"
    by (simp_all add: TimerList_AddNode_def prims Let_def new_events_def sample_defs)
  have f: "fits_long (sint (total_ms (mem tie 10)) -
      (sint (clock tie 1) - sint (start_time (mem tie 10))) + sint (pause_ms (mem tie 10)))"
    by (simp add: fits_long_def sample_defs)
  have s: "sint (total_ms (mem tie 10)) -
      (sint (clock tie 1) - sint (start_time (mem tie 10))) + sint (pause_ms (mem tie 10)) = - 51"
    by (simp add: sample_defs)
  from TimerList_AddNode_order [of tie 30] f
  have "sint (remaining_ms (mem tie 10) (clock tie 1)) =
      sint (total_ms (mem tie 10)) -
      (sint (clock tie 1) - sint (start_time (mem tie 10))) + sint (pause_ms (mem tie 10))"
    by blast
  then have c: "sint (remaining_ms (mem tie 10) (clock tie 1)) = - 51"
    by (simp only: s)
  show ?thesis
    by (intro conjI) (fact a b c)+
qed

subsection \<open>One iteration of the timer thread\<close>

lemma TimerThread_body_idle:
  assumes "find (\<lambda>node. state (mem w node) = STATE_RUN) (timer_list w) = None"
  shows "TimerThread_body w = w\<lparr>trace := trace w @ [EMutexUnlock, EMSleep 10, EMutexLock]\<rparr>"
  using assms by (simp add: TimerThread_body_def prims)

lemma TimerThread_body_wait:
  assumes "find (\<lambda>node. state (mem w node) = STATE_RUN) (timer_list w) = Some p"
    and "elapsed_ms (mem w p) (clock w (ticks w)) <s total_ms (mem w p)"
  shows "TimerThread_body w =
           w\<lparr>ticks := Suc (ticks w),
             trace := trace w @ [ECondTimedWait
               (total_ms (mem w p) - elapsed_ms (mem w p) (clock w (ticks w)))]\<rparr>"
  using assms by (simp add: TimerThread_body_def prims elapsed_ms_def Let_def)

lemma TimerThread_body_fire_once:
  assumes "find (\<lambda>node. state (mem w node) = STATE_RUN) (timer_list w) = Some p"
    and "total_ms (mem w p) \<le>s elapsed_ms (mem w p) (clock w (ticks w))"
    and "\<not> reuse (mem w p)"
  shows "TimerThread_body w =
           w\<lparr>ticks := Suc (ticks w),
             timer_list := remove1 p (timer_list w),
             live := live w - {p},
             trace := trace w @ [EUnlink p, EFree p, EPostTask (func (mem w p)) (arg (mem w p))]\<rparr>"
  using assms by (simp add: TimerThread_body_def prims elapsed_ms_def Let_def)

lemma TimerThread_body_fire_again:
  assumes "find (\<lambda>node. state (mem w node) = STATE_RUN) (timer_list w) = Some p"
    and "total_ms (mem w p) \<le>s elapsed_ms (mem w p) (clock w (ticks w))"
    and "reuse (mem w p)"
  shows "\<exists>k \<le> length (remove1 p (timer_list w)).
           TimerThread_body w =
             w\<lparr>mem := (mem w)(p := (mem w p)\<lparr>pause_ms := 0,
                                            start_time := clock w (Suc (ticks w))\<rparr>),
               ticks := ticks w + 3 + min (Suc k) (length (remove1 p (timer_list w))),
               timer_list := take k (remove1 p (timer_list w)) @ p # drop k (remove1 p (timer_list w)),
               trace := trace w @ [EUnlink p,
                  if k < length (remove1 p (timer_list w)) then ELink p else EAppend p,
                  EPostTask (func (mem w p)) (arg (mem w p))]\<rparr>"
proof -
  let ?m = "w\<lparr>timer_list := remove1 p (timer_list w),
               trace := trace w @ [EUnlink p],
               ticks := Suc (Suc (ticks w)),
               mem := (mem w)(p := (mem w p)\<lparr>pause_ms := 0,
                                            start_time := clock w (Suc (ticks w))\<rparr>)\<rparr>"
  have B: "TimerThread_body w =
      LCUI_PostTask (func (mem w p), arg (mem w p)) (TimerList_AddNode p ?m)"
    using assms by (simp add: TimerThread_body_def prims elapsed_ms_def Let_def)
  from TimerList_AddNode_position [of ?m p]
  obtain k where k: "k \<le> length (remove1 p (timer_list w))"
    and E: "TimerList_AddNode p ?m =
             ?m\<lparr>ticks := Suc (ticks ?m) + min (Suc k) (length (timer_list ?m)),
               timer_list := take k (timer_list ?m) @ p # drop k (timer_list ?m),
               trace := trace ?m @ [if k < length (timer_list ?m) then ELink p else EAppend p]\<rparr>"
    by auto
  show ?thesis
    by (rule exI [of _ k]) (simp add: k B E prims world_eq_iff)
qed

lemma fired_iff:
  "fired w p \<longleftrightarrow>
     find (\<lambda>node. state (mem w node) = STATE_RUN) (timer_list w) = Some p \<and>
     total_ms (mem w p) \<le>s elapsed_ms (mem w p) (clock w (ticks w))"
proof (cases "find (\<lambda>node. state (mem w node) = STATE_RUN) (timer_list w)")
  case None
  show ?thesis
    by (simp add: fired_def None TimerThread_body_idle [OF None])
next
  case (Some q)
  show ?thesis
  proof (cases "elapsed_ms (mem w q) (clock w (ticks w)) <s total_ms (mem w q)")
    case True
    then show ?thesis
      by (auto simp add: fired_def Some TimerThread_body_wait [OF Some True])
  next
    case False
    then have due: "total_ms (mem w q) \<le>s elapsed_ms (mem w q) (clock w (ticks w))"
      by (simp add: signed.not_less)
    show ?thesis
    proof (cases "reuse (mem w q)")
      case False
      with due show ?thesis
        by (auto simp add: fired_def Some TimerThread_body_fire_once [OF Some due False])
    next
      case True
      from TimerThread_body_fire_again [OF Some due True]
      obtain k where E: "TimerThread_body w =
             w\<lparr>mem := (mem w)(q := (mem w q)\<lparr>pause_ms := 0,
                                            start_time := clock w (Suc (ticks w))\<rparr>),
               ticks := ticks w + 3 + min (Suc k) (length (remove1 q (timer_list w))),
               timer_list := take k (remove1 q (timer_list w)) @ q # drop k (remove1 q (timer_list w)),
               trace := trace w @ [EUnlink q,
                  if k < length (remove1 q (timer_list w)) then ELink q else EAppend q,
                  EPostTask (func (mem w q)) (arg (mem w q))]\<rparr>"
        by blast
      from due show ?thesis
        by (auto simp add: fired_def Some E)
    qed
  qed
qed

lemma posts_of_body:
  "filter is_post (new_events w (TimerThread_body w)) =
     (case find (\<lambda>node. state (mem w node) = STATE_RUN) (timer_list w) of
        None \<Rightarrow> []
      | Some q \<Rightarrow> if elapsed_ms (mem w q) (clock w (ticks w)) <s total_ms (mem w q) then []
                  else [EPostTask (func (mem w q)) (arg (mem w q))])"
proof (cases "find (\<lambda>node. state (mem w node) = STATE_RUN) (timer_list w)")
  case None
  show ?thesis
    by (simp add: None TimerThread_body_idle [OF None])
next
  case (Some q)
  show ?thesis
  proof (cases "elapsed_ms (mem w q) (clock w (ticks w)) <s total_ms (mem w q)")
    case True
    then show ?thesis
      by (simp add: Some TimerThread_body_wait [OF Some True])
  next
    case False
    then have due: "total_ms (mem w q) \<le>s elapsed_ms (mem w q) (clock w (ticks w))"
      by (simp add: signed.not_less)
    show ?thesis
    proof (cases "reuse (mem w q)")
      case False
      with due show ?thesis
        by (simp add: Some TimerThread_body_fire_once [OF Some due False])
    next
      case True
      from TimerThread_body_fire_again [OF Some due True]
      obtain k where E: "TimerThread_body w =
             w\<lparr>mem := (mem w)(q := (mem w q)\<lparr>pause_ms := 0,
                                            start_time := clock w (Suc (ticks w))\<rparr>),
               ticks := ticks w + 3 + min (Suc k) (length (remove1 q (timer_list w))),
               timer_list := take k (remove1 q (timer_list w)) @ q # drop k (remove1 q (timer_list w)),
               trace := trace w @ [EUnlink q,
                  if k < length (remove1 q (timer_list w)) then ELink q else EAppend q,
                  EPostTask (func (mem w q)) (arg (mem w q))]\<rparr>"
        by blast
      from due show ?thesis
        by (simp add: Some E)
    qed
  qed
qed

text \<open>Claim C1. In every iteration of the loop of \<^verbatim>\<open>TimerThread\<close>, from any state:
  an entry that is fired is running and its elapsed time \<open>now - start_time - pause_ms\<close>, at
  the clock reading of the iteration, is at least its \<open>total_ms\<close>; an entry whose elapsed
  time is below its \<open>total_ms\<close> is not fired; when the first running entry is such an
  entry the iteration does nothing but a timed wait of \<open>total_ms - elapsed\<close>; and every
  task posted in the iteration is the callback and argument of an entry fired in it. Elapsed
  time and wait are the \<^verbatim>\<open>long\<close> values the code computes, compared as signed
  numbers; wherever the integer \<open>now - start_time - pause_ms\<close> fits in a \<^verbatim>\<open>long\<close> the
  elapsed time is that integer, and likewise the wait.\<close>

theorem TimerThread_never_early:
  "(fired w p \<longrightarrow>
      state (mem w p) = STATE_RUN \<and>
      total_ms (mem w p) \<le>s elapsed_ms (mem w p) (clock w (ticks w))) \<and>
   (elapsed_ms (mem w p) (clock w (ticks w)) <s total_ms (mem w p) \<longrightarrow> \<not> fired w p) \<and>
   (find (\<lambda>node. state (mem w node) = STATE_RUN) (timer_list w) = Some p \<and>
    elapsed_ms (mem w p) (clock w (ticks w)) <s total_ms (mem w p) \<longrightarrow>
      TimerThread_body w =
        w\<lparr>ticks := Suc (ticks w),
          trace := trace w @ [ECondTimedWait
            (total_ms (mem w p) - elapsed_ms (mem w p) (clock w (ticks w)))]\<rparr>) \<and>
   (\<forall>f x. EPostTask f x \<in> set (new_events w (TimerThread_body w)) \<longrightarrow>
      (\<exists>q. fired w q \<and> f = func (mem w q) \<and> x = arg (mem w q))) \<and>
   (fits_long (sint (clock w (ticks w)) - sint (start_time (mem w p)) - sint (pause_ms (mem w p))) \<longrightarrow>
      sint (elapsed_ms (mem w p) (clock w (ticks w))) =
        sint (clock w (ticks w)) - sint (start_time (mem w p)) - sint (pause_ms (mem w p)) \<and>
      (elapsed_ms (mem w p) (clock w (ticks w)) <s total_ms (mem w p) \<longleftrightarrow>
         sint (clock w (ticks w)) - sint (start_time (mem w p)) - sint (pause_ms (mem w p))
           < sint (total_ms (mem w p))) \<and>
      (fired w p \<longrightarrow>
         sint (total_ms (mem w p)) \<le>
           sint (clock w (ticks w)) - sint (start_time (mem w p)) - sint (pause_ms (mem w p))) \<and>
      (fits_long (sint (total_ms (mem w p)) -
          (sint (clock w (ticks w)) - sint (start_time (mem w p)) - sint (pause_ms (mem w p)))) \<longrightarrow>
         sint (total_ms (mem w p) - elapsed_ms (mem w p) (clock w (ticks w))) =
           sint (total_ms (mem w p)) -
           (sint (clock w (ticks w)) - sint (start_time (mem w p)) - sint (pause_ms (mem w p)))))"
proof (intro conjI impI allI)
  assume "fired w p"
  then show "state (mem w p) = STATE_RUN"
    by (auto simp add: fired_iff dest: find_Some_mem)
next
  assume "fired w p"
  then show "total_ms (mem w p) \<le>s elapsed_ms (mem w p) (clock w (ticks w))"
    by (simp add: fired_iff)
next
  assume "elapsed_ms (mem w p) (clock w (ticks w)) <s total_ms (mem w p)"
  then show "\<not> fired w p" by (simp add: fired_iff signed.not_le)
next
  assume "find (\<lambda>node. state (mem w node) = STATE_RUN) (timer_list w) = Some p \<and>
    elapsed_ms (mem w p) (clock w (ticks w)) <s total_ms (mem w p)"
  then show "TimerThread_body w =
        w\<lparr>ticks := Suc (ticks w),
          trace := trace w @ [ECondTimedWait
            (total_ms (mem w p) - elapsed_ms (mem w p) (clock w (ticks w)))]\<rparr>"
    by (simp add: TimerThread_body_wait)
next
  fix f x
  assume "EPostTask f x \<in> set (new_events w (TimerThread_body w))"
  then have "EPostTask f x \<in> set (filter is_post (new_events w (TimerThread_body w)))"
    by simp
  then obtain q where "find (\<lambda>node. state (mem w node) = STATE_RUN) (timer_list w) = Some q"
    and "\<not> elapsed_ms (mem w q) (clock w (ticks w)) <s total_ms (mem w q)"
    and "f = func (mem w q)" and "x = arg (mem w q)"
    unfolding posts_of_body
    by (cases "find (\<lambda>node. state (mem w node) = STATE_RUN) (timer_list w)")
      (auto split: if_splits)
  then have "fired w q \<and> f = func (mem w q) \<and> x = arg (mem w q)"
    by (simp add: fired_iff signed.not_less)
  then show "\<exists>q. fired w q \<and> f = func (mem w q) \<and> x = arg (mem w q)" ..
next
  assume r: "fits_long (sint (clock w (ticks w)) - sint (start_time (mem w p)) -
    sint (pause_ms (mem w p)))"
  show e: "sint (elapsed_ms (mem w p) (clock w (ticks w))) =
        sint (clock w (ticks w)) - sint (start_time (mem w p)) - sint (pause_ms (mem w p))"
    by (rule elapsed_ms_sint [OF r])
  show "elapsed_ms (mem w p) (clock w (ticks w)) <s total_ms (mem w p) \<longleftrightarrow>
         sint (clock w (ticks w)) - sint (start_time (mem w p)) - sint (pause_ms (mem w p))
           < sint (total_ms (mem w p))"
    by (simp add: word_sless_alt e)
  {
    assume "fired w p"
    then have "total_ms (mem w p) \<le>s elapsed_ms (mem w p) (clock w (ticks w))"
      by (simp add: fired_iff)
    then show "sint (total_ms (mem w p)) \<le>
           sint (clock w (ticks w)) - sint (start_time (mem w p)) - sint (pause_ms (mem w p))"
      by (simp add: word_sle_eq e)
  }
  {
    assume "fits_long (sint (total_ms (mem w p)) -
          (sint (clock w (ticks w)) - sint (start_time (mem w p)) - sint (pause_ms (mem w p))))"
    then have "fits_long (sint (total_ms (mem w p)) -
          sint (elapsed_ms (mem w p) (clock w (ticks w))))"
      by (simp only: e)
    then have "sint (total_ms (mem w p) - elapsed_ms (mem w p) (clock w (ticks w))) =
        sint (total_ms (mem w p)) - sint (elapsed_ms (mem w p) (clock w (ticks w)))"
      by (rule diff_sint)
    then show "sint (total_ms (mem w p) - elapsed_ms (mem w p) (clock w (ticks w))) =
           sint (total_ms (mem w p)) -
           (sint (clock w (ticks w)) - sint (start_time (mem w p)) - sint (pause_ms (mem w p)))"
      by (simp only: e)
  }
qed

theorem TimerThread_never_early_witness:
  "fired sample 10 \<and> state (mem sample 10) = STATE_RUN \<and>
   total_ms (mem sample 10) = 50 \<and> elapsed_ms (mem sample 10) (clock sample (ticks sample)) = 100 \<and>
   sint (elapsed_ms (mem sample 10) (clock sample (ticks sample))) = 100 \<and>
   find (\<lambda>node. state (mem early node) = STATE_RUN) (timer_list early) = Some 10 \<and>
   elapsed_ms (mem early 10) (clock early (ticks early)) = 20 \<and> total_ms (mem early 10) = 50 \<and>
   \<not> fired early 10 \<and>
   TimerThread_body early = early\<lparr>ticks := 1, trace := [ECondTimedWait 30]\<rparr> \<and>
   EPostTask 7 8 \<in> set (new_events sample (TimerThread_body sample)) \<and>
   find (\<lambda>node. state (mem brim node) = STATE_RUN) (timer_list brim) = Some 10 \<and>
   elapsed_ms (mem brim 10) (clock brim (ticks brim)) = - 10 \<and>
   total_ms (mem brim 10) = 9223372036854775807 \<and>
   TimerThread_body brim =
     brim\<lparr>ticks := 1, trace := [ECondTimedWait (- 9223372036854775799)]\<rparr>"
proof -
  have a: "fired sample 10"
    by (simp add: fired_def new_events_def TimerThread_body_def prims Let_def sample_defs)
  have b: "state (mem sample 10) = STATE_RUN" "total_ms (mem sample 10) = 50"
    "elapsed_ms (mem sample 10) (clock sample (ticks sample)) = 100"
    "find (\<lambda>node. state (mem early node) = STATE_RUN) (timer_list early) = Some 10"
    "elapsed_ms (mem early 10) (clock early (ticks early)) = 20" "total_ms (mem early 10) = 50"
    "find (\<lambda>node. state (mem brim node) = STATE_RUN) (timer_list brim) = Some 10"
    "elapsed_ms (mem brim 10) (clock brim (ticks brim)) = - 10"
    "total_ms (mem brim 10) = 9223372036854775807"
    by (simp_all add: elapsed_ms_def sample_defs)
  have c: "ticks early = 0" "trace early = []" "ticks brim = 0" "trace brim = []"
    by (simp_all add: sample_defs)
  have f: "fits_long (sint (clock sample (ticks sample)) - sint (start_time (mem sample 10)) -
    sint (pause_ms (mem sample 10)))"
    "sint (clock sample (ticks sample)) - sint (start_time (mem sample 10)) -
    sint (pause_ms (mem sample 10)) = 100"
    by (simp_all add: fits_long_def sample_defs)
  note S = TimerThread_never_early [of sample 10]
  note E = TimerThread_never_early [of early 10]
  note B = TimerThread_never_early [of brim 10]
  have g1: "sint (elapsed_ms (mem sample 10) (clock sample (ticks sample))) = 100"
    using S f by simp
  have g2: "\<not> fired early 10"
    using E b by simp
  have g3: "TimerThread_body early = early\<lparr>ticks := 1, trace := [ECondTimedWait 30]\<rparr>"
    using E b c by simp
  have g4: "EPostTask 7 8 \<in> set (new_events sample (TimerThread_body sample))"
    using a by (simp add: fired_def sample_defs)
  have g5: "TimerThread_body brim =
     brim\<lparr>ticks := 1, trace := [ECondTimedWait (- 9223372036854775799)]\<rparr>"
    using B b c by simp
  show ?thesis
    by (intro conjI) (fact a b g1 g2 g3 g4 g5)+
qed

text \<open>Claim C3. An iteration whose first running entry, at \<open>p\<close>, is due fires it with these
  calls, in this order. For a one-shot entry: \<^verbatim>\<open>LinkedList_Unlink\<close>, \<^verbatim>\<open>free\<close>, then
  \<^verbatim>\<open>LCUI_PostTask\<close> with the callback and argument read before the block was freed; the
  entry is out of the registry and its block released. For a repeating entry:
  \<^verbatim>\<open>LinkedList_Unlink\<close>, the store of 0 in \<open>pause_ms\<close> and of a fresh clock reading
  in \<open>start_time\<close>, the relinking by \<^verbatim>\<open>TimerList_AddNode\<close>, then
  \<^verbatim>\<open>LCUI_PostTask\<close>. The state after the iteration is given in full: no other entry
  is unlinked, freed, changed or posted. In both cases exactly one task is posted, and the
  trace holds no call through a callback pointer.\<close>

theorem TimerThread_fire_order:
  assumes "find (\<lambda>node. state (mem w node) = STATE_RUN) (timer_list w) = Some p"
    and "total_ms (mem w p) \<le>s elapsed_ms (mem w p) (clock w (ticks w))"
  shows "(\<not> reuse (mem w p) \<longrightarrow>
            TimerThread_body w =
              w\<lparr>ticks := Suc (ticks w),
                timer_list := remove1 p (timer_list w),
                live := live w - {p},
                trace := trace w @
                  [EUnlink p, EFree p, EPostTask (func (mem w p)) (arg (mem w p))]\<rparr>) \<and>
         (reuse (mem w p) \<longrightarrow>
            (\<exists>k \<le> length (remove1 p (timer_list w)).
               TimerThread_body w =
                 w\<lparr>mem := (mem w)(p := (mem w p)\<lparr>pause_ms := 0,
                                                start_time := clock w (Suc (ticks w))\<rparr>),
                   ticks := ticks w + 3 + min (Suc k) (length (remove1 p (timer_list w))),
                   timer_list := take k (remove1 p (timer_list w)) @
                                 p # drop k (remove1 p (timer_list w)),
                   trace := trace w @
                     [EUnlink p,
                      if k < length (remove1 p (timer_list w)) then ELink p else EAppend p,
                      EPostTask (func (mem w p)) (arg (mem w p))]\<rparr>)) \<and>
         filter is_post (new_events w (TimerThread_body w)) =
           [EPostTask (func (mem w p)) (arg (mem w p))] \<and>
         filter is_call (new_events w (TimerThread_body w)) = []"
proof -
  note f = assms(1) and due = assms(2)
  have posts: "filter is_post (new_events w (TimerThread_body w)) =
           [EPostTask (func (mem w p)) (arg (mem w p))]"
    using due by (simp add: posts_of_body f signed.not_less)
  have calls: "filter is_call (new_events w (TimerThread_body w)) = []"
  proof (cases "reuse (mem w p)")
    case False
    show ?thesis by (simp add: TimerThread_body_fire_once [OF f due False])
  next
    case True
    from TimerThread_body_fire_again [OF f due True] show ?thesis by auto
  qed
  from posts calls TimerThread_body_fire_once [OF f due] TimerThread_body_fire_again [OF f due]
  show ?thesis by blast
qed

theorem TimerThread_fire_order_witness:
  "find (\<lambda>node. state (mem sample node) = STATE_RUN) (timer_list sample) = Some 10 \<and>
   total_ms (mem sample 10) \<le>s elapsed_ms (mem sample 10) (clock sample (ticks sample)) \<and>
   \<not> reuse (mem sample 10) \<and>
   TimerThread_body sample =
     sample\<lparr>ticks := 1, timer_list := [20], live := {20},
            trace := [EUnlink 10, EFree 10, EPostTask 7 8]\<rparr> \<and>
   find (\<lambda>node. state (mem again node) = STATE_RUN) (timer_list again) = Some 20 \<and>
   total_ms (mem again 20) \<le>s elapsed_ms (mem again 20) (clock again (ticks again)) \<and>
   reuse (mem again 20) \<and>
   TimerThread_body again =
     again\<lparr>mem := (mem again)(20 := (mem again 20)\<lparr>pause_ms := 0, start_time := 301\<rparr>),
           ticks := 4, timer_list := [10, 20],
           trace := [EUnlink 20, EAppend 20, EPostTask 9 4]\<rparr> \<and>
   filter is_post (new_events again (TimerThread_body again)) = [EPostTask 9 4] \<and>
   filter is_call (new_events again (TimerThread_body again)) = []"
proof -
  have a: "find (\<lambda>node. state (mem sample node) = STATE_RUN) (timer_list sample) = Some 10"
    and a': "total_ms (mem sample 10) \<le>s elapsed_ms (mem sample 10) (clock sample (ticks sample))"
    and a'': "\<not> reuse (mem sample 10)"
    by (simp_all add: elapsed_ms_def sample_defs)
  have b: "find (\<lambda>node. state (mem again node) = STATE_RUN) (timer_list again) = Some 20"
    and b': "total_ms (mem again 20) \<le>s elapsed_ms (mem again 20) (clock again (ticks again))"
    and b'': "reuse (mem again 20)"
    by (simp_all add: elapsed_ms_def sample_defs)
  have e: "ticks sample = 0" "remove1 10 (timer_list sample) = [20]" "live sample - {10} = {20}"
    "trace sample = []" "func (mem sample 10) = 7" "arg (mem sample 10) = 8"
    "func (mem again 20) = 9" "arg (mem again 20) = 4"
    by (simp_all add: sample_defs insert_Diff_if)
  note S = TimerThread_fire_order [OF a a']
  note A = TimerThread_fire_order [OF b b']
  have g1: "TimerThread_body sample =
     sample\<lparr>ticks := 1, timer_list := [20], live := {20},
            trace := [EUnlink 10, EFree 10, EPostTask 7 8]\<rparr>"
    using S a'' e by simp
  have c: "TimerThread_body again =
     again\<lparr>mem := (mem again)(20 := (mem again 20)\<lparr>pause_ms := 0, start_time := 301\<rparr>),
           ticks := 4, timer_list := [10, 20],
           trace := [EUnlink 20, EAppend 20, EPostTask 9 4]\<rparr>"
    by (simp add: TimerThread_body_def TimerList_AddNode_def prims Let_def sample_defs
        world_eq_iff)
  have g2: "filter is_post (new_events again (TimerThread_body again)) = [EPostTask 9 4]"
    and g3: "filter is_call (new_events again (TimerThread_body again)) = []"
    using A e by simp_all
  show ?thesis
    by (intro conjI) (fact a a' a'' b b' b'' g1 c g2 g3)+
qed

subsection \<open>Setting a timer, and the invariant of the registry\<close>

lemma LCUITimer_Set_effect:
  assumes "is_running w" and "id_count w \<noteq> INT_MAX"
  shows "\<exists>k \<le> length (timer_list w).
           LCUITimer_Set (Some p) n_ms fn a ru w =
             Inr (id_count w + 1,
                  w\<lparr>live := insert p (live w),
                    id_count := id_count w + 1,
                    mem := (mem w)(p := (mem w p)\<lparr>arg := a, func := fn, reuse := ru,
                             pause_ms := 0, total_ms := n_ms, state := STATE_RUN,
                             id' := id_count w + 1, start_time := clock w (ticks w)\<rparr>),
                    ticks := ticks w + 2 + min (Suc k) (length (timer_list w)),
                    timer_list := take k (timer_list w) @ p # drop k (timer_list w),
                    trace := trace w @ [EMutexLock,
                       if k < length (timer_list w) then ELink p else EAppend p,
                       ECondSignal, EMutexUnlock]\<rparr>)"
proof -
  let ?m = "w\<lparr>trace := trace w @ [EMutexLock],
               live := insert p (live w),
               id_count := id_count w + 1,
               ticks := Suc (ticks w),
               mem := (mem w)(p := (mem w p)\<lparr>arg := a, func := fn, reuse := ru,
                             pause_ms := 0, total_ms := n_ms, state := STATE_RUN,
                             id' := id_count w + 1, start_time := clock w (ticks w)\<rparr>)\<rparr>"
  have B: "LCUITimer_Set (Some p) n_ms fn a ru w =
      Inr (id' (mem (TimerList_AddNode p ?m) p),
           LCUIMutex_Unlock (LCUICond_Signal (TimerList_AddNode p ?m)))"
    using assms by (simp add: LCUITimer_Set_def prims Let_def)
  from TimerList_AddNode_position [of ?m p]
  obtain k where k: "k \<le> length (timer_list w)"
    and E: "TimerList_AddNode p ?m =
             ?m\<lparr>ticks := Suc (ticks ?m) + min (Suc k) (length (timer_list ?m)),
               timer_list := take k (timer_list ?m) @ p # drop k (timer_list ?m),
               trace := trace ?m @ [if k < length (timer_list ?m) then ELink p else EAppend p]\<rparr>"
    by auto
  show ?thesis
    by (rule exI [of _ k]) (simp add: k B E prims world_eq_iff)
qed

lemma registry_okI:
  assumes "0 \<le> id_count w" and "sorted_wrt (<) ids"
    and "\<And>i. i \<in> set ids \<Longrightarrow> 0 < i \<and> i \<le> id_count w"
    and "distinct (timer_list w)" and "set (timer_list w) \<subseteq> live w"
    and "\<And>p. p \<in> set (timer_list w) \<Longrightarrow> id' (mem w p) \<in> set ids"
    and "\<And>p q. p \<in> set (timer_list w) \<Longrightarrow> q \<in> set (timer_list w) \<Longrightarrow>
           id' (mem w p) = id' (mem w q) \<Longrightarrow> p = q"
  shows "registry_ok ids w"
  unfolding registry_ok_def inj_on_def using assms by blast

lemma registry_okD:
  assumes "registry_ok ids w"
  shows "0 \<le> id_count w" and "sorted_wrt (<) ids"
    and "i \<in> set ids \<Longrightarrow> 0 < i \<and> i \<le> id_count w"
    and "distinct (timer_list w)" and "set (timer_list w) \<subseteq> live w"
    and "p \<in> set (timer_list w) \<Longrightarrow> id' (mem w p) \<in> set ids"
    and "p \<in> set (timer_list w) \<Longrightarrow> q \<in> set (timer_list w) \<Longrightarrow>
           id' (mem w p) = id' (mem w q) \<Longrightarrow> p = q"
  using assms unfolding registry_ok_def inj_on_def by blast+

lemma ok_frame:
  assumes ok: "registry_ok ids w"
    and "id_count w' = id_count w" and "timer_list w' = timer_list w" and "live w' = live w"
    and "\<And>p. p \<in> set (timer_list w) \<Longrightarrow> id' (mem w' p) = id' (mem w p)"
  shows "registry_ok ids w'"
proof (rule registry_okI)
  fix p q
  assume "p \<in> set (timer_list w')" "q \<in> set (timer_list w')" "id' (mem w' p) = id' (mem w' q)"
  then show "p = q"
    using registry_okD(7) [OF ok, of p q] assms(3,5) by simp
qed (use registry_okD [OF ok] assms(2-5) in simp_all)

lemma ok_unlink_free:
  assumes ok: "registry_ok ids w"
    and "id_count w' = id_count w" and "timer_list w' = remove1 p (timer_list w)"
    and "live w' = live w - {p}" and "mem w' = mem w"
  shows "registry_ok ids w'"
proof (rule registry_okI)
  have d: "distinct (timer_list w)" by (rule registry_okD(4) [OF ok])
  have sub: "set (timer_list w') \<subseteq> set (timer_list w)"
    unfolding assms(3) by (rule set_remove1_subset)
  show "distinct (timer_list w')" using d by (simp add: assms(3))
  show "set (timer_list w') \<subseteq> live w'"
    using d registry_okD(5) [OF ok] by (auto simp add: assms(3,4))
  show "\<And>q. q \<in> set (timer_list w') \<Longrightarrow> id' (mem w' q) \<in> set ids"
    using sub registry_okD(6) [OF ok] by (auto simp add: assms(5))
  show "\<And>q r. q \<in> set (timer_list w') \<Longrightarrow> r \<in> set (timer_list w') \<Longrightarrow>
           id' (mem w' q) = id' (mem w' r) \<Longrightarrow> q = r"
    using sub registry_okD(7) [OF ok] by (auto simp add: assms(5))
qed (use registry_okD [OF ok] assms(2) in simp_all)

lemma ok_relink:
  assumes ok: "registry_ok ids w" and "p \<in> set (timer_list w)"
    and "id_count w' = id_count w"
    and "timer_list w' = take k (remove1 p (timer_list w)) @ p # drop k (remove1 p (timer_list w))"
    and "live w' = live w"
    and "\<And>q. q \<in> set (timer_list w) \<Longrightarrow> id' (mem w' q) = id' (mem w q)"
  shows "registry_ok ids w'"
proof (rule registry_okI)
  have d: "distinct (timer_list w)" by (rule registry_okD(4) [OF ok])
  have "set (timer_list w') = insert p (set (remove1 p (timer_list w)))"
    unfolding assms(4) by (rule set_link)
  with d assms(2) have s: "set (timer_list w') = set (timer_list w)"
    by auto
  have "distinct (timer_list w') \<longleftrightarrow>
        distinct (remove1 p (timer_list w)) \<and> p \<notin> set (remove1 p (timer_list w))"
    unfolding assms(4) by (rule distinct_link)
  with d show "distinct (timer_list w')" by simp
  show "set (timer_list w') \<subseteq> live w'"
    using registry_okD(5) [OF ok] by (simp add: s assms(5))
  show "\<And>q. q \<in> set (timer_list w') \<Longrightarrow> id' (mem w' q) \<in> set ids"
    using registry_okD(6) [OF ok] by (simp add: s assms(6))
  show "\<And>q r. q \<in> set (timer_list w') \<Longrightarrow> r \<in> set (timer_list w') \<Longrightarrow>
           id' (mem w' q) = id' (mem w' r) \<Longrightarrow> q = r"
    using registry_okD(7) [OF ok] by (simp add: s assms(6))
qed (use registry_okD [OF ok] assms(3) in simp_all)

lemma ok_set:
  assumes ok: "registry_ok ids w" and "p \<notin> live w"
    and "id_count w' = id_count w + 1"
    and "timer_list w' = take k (timer_list w) @ p # drop k (timer_list w)"
    and "live w' = insert p (live w)"
    and "id' (mem w' p) = id_count w + 1"
    and "\<And>q. q \<noteq> p \<Longrightarrow> mem w' q = mem w q"
  shows "registry_ok (ids @ [id_count w + 1]) w'"
proof (rule registry_okI)
  have n: "p \<notin> set (timer_list w)" using registry_okD(5) [OF ok] assms(2) by auto
  have old: "\<And>q. q \<in> set (timer_list w) \<Longrightarrow> id' (mem w' q) = id' (mem w q)"
    using n assms(7) by metis
  have lt: "\<And>q. q \<in> set (timer_list w) \<Longrightarrow> id' (mem w q) < id_count w + 1"
    using registry_okD(3,6) [OF ok] by fastforce
  show "0 \<le> id_count w'" using registry_okD(1) [OF ok] by (simp add: assms(3))
  show "sorted_wrt (<) (ids @ [id_count w + 1])"
    using registry_okD(2,3) [OF ok] by (fastforce simp add: sorted_wrt_append)
  show "\<And>i. i \<in> set (ids @ [id_count w + 1]) \<Longrightarrow> 0 < i \<and> i \<le> id_count w'"
    using registry_okD(1,3) [OF ok] by (fastforce simp add: assms(3))
  have s: "set (timer_list w') = insert p (set (timer_list w))"
    unfolding assms(4) by (rule set_link)
  have "distinct (timer_list w') \<longleftrightarrow> distinct (timer_list w) \<and> p \<notin> set (timer_list w)"
    unfolding assms(4) by (rule distinct_link)
  then show "distinct (timer_list w')" using registry_okD(4) [OF ok] n by simp
  show "set (timer_list w') \<subseteq> live w'"
    using registry_okD(5) [OF ok] by (auto simp add: s assms(5))
  show "\<And>q. q \<in> set (timer_list w') \<Longrightarrow> id' (mem w' q) \<in> set (ids @ [id_count w + 1])"
    using registry_okD(6) [OF ok] old by (auto simp add: s assms(6))
  show "\<And>q r. q \<in> set (timer_list w') \<Longrightarrow> r \<in> set (timer_list w') \<Longrightarrow>
           id' (mem w' q) = id' (mem w' r) \<Longrightarrow> q = r"
  proof -
    fix q r
    assume q: "q \<in> set (timer_list w')" and r: "r \<in> set (timer_list w')"
      and e: "id' (mem w' q) = id' (mem w' r)"
    from q have q': "q = p \<or> q \<in> set (timer_list w)" by (simp add: s)
    from r have r': "r = p \<or> r \<in> set (timer_list w)" by (simp add: s)
    show "q = r"
    proof (cases "q = p")
      case True
      show ?thesis
      proof (cases "r = p")
        case True
        with \<open>q = p\<close> show ?thesis by simp
      next
        case False
        with r' have "r \<in> set (timer_list w)" by simp
        with lt [of r] old [of r] e True assms(6) show ?thesis by simp
      qed
    next
      case False
      with q' have qi: "q \<in> set (timer_list w)" by simp
      show ?thesis
      proof (cases "r = p")
        case True
        with lt [of q] old [of q] qi e assms(6) show ?thesis by simp
      next
        case False
        with r' have "r \<in> set (timer_list w)" by simp
        with qi e old [of q] old [of r] registry_okD(7) [OF ok, of q r] show ?thesis by simp
      qed
    qed
  qed
qed

lemma ok_Pause: "registry_ok ids w \<Longrightarrow> registry_ok ids (snd (LCUITimer_Pause i w))"
  by (cases "TimerList_Find i w")
    (auto elim!: ok_frame simp add: LCUITimer_Pause_def Let_def prims)

lemma ok_Continue: "registry_ok ids w \<Longrightarrow> registry_ok ids (snd (LCUITimer_Continue i w))"
  by (cases "TimerList_Find i w")
    (auto elim!: ok_frame simp add: LCUITimer_Continue_def Let_def prims)

lemma ok_Reset: "registry_ok ids w \<Longrightarrow> registry_ok ids (snd (LCUITimer_Reset i n_ms w))"
  by (cases "TimerList_Find i w")
    (auto elim!: ok_frame simp add: LCUITimer_Reset_def Let_def prims)

lemma ok_Free: "registry_ok ids w \<Longrightarrow> registry_ok ids (snd (LCUITimer_Free i w))"
proof (cases "TimerList_Find i w")
  case None
  assume "registry_ok ids w"
  then show ?thesis
    using None by (auto elim!: ok_frame simp add: LCUITimer_Free_def Let_def prims)
next
  case (Some p)
  assume ok: "registry_ok ids w"
  show ?thesis
  proof (cases "is_running w")
    case True
    show ?thesis
      by (rule ok_unlink_free [OF ok, of _ p])
        (simp_all add: LCUITimer_Free_def Let_def prims True Some)
  next
    case False
    with ok show ?thesis by (simp add: LCUITimer_Free_def)
  qed
qed

lemma ok_body:
  assumes ok: "registry_ok ids w"
  shows "registry_ok ids (TimerThread_body w)"
proof (cases "find (\<lambda>node. state (mem w node) = STATE_RUN) (timer_list w)")
  case None
  show ?thesis
    by (rule ok_frame [OF ok]) (simp_all add: TimerThread_body_idle [OF None])
next
  case (Some p)
  then have p: "p \<in> set (timer_list w)" by (simp add: find_Some_mem)
  show ?thesis
  proof (cases "elapsed_ms (mem w p) (clock w (ticks w)) <s total_ms (mem w p)")
    case True
    show ?thesis
      by (rule ok_frame [OF ok]) (simp_all add: TimerThread_body_wait [OF Some True])
  next
    case False
    then have due: "total_ms (mem w p) \<le>s elapsed_ms (mem w p) (clock w (ticks w))"
      by (simp add: signed.not_less)
    show ?thesis
    proof (cases "reuse (mem w p)")
      case False
      show ?thesis
        by (rule ok_unlink_free [OF ok, of _ p])
          (simp_all add: TimerThread_body_fire_once [OF Some due False])
    next
      case True
      from TimerThread_body_fire_again [OF Some due True]
      obtain k where E: "TimerThread_body w =
             w\<lparr>mem := (mem w)(p := (mem w p)\<lparr>pause_ms := 0,
                                            start_time := clock w (Suc (ticks w))\<rparr>),
               ticks := ticks w + 3 + min (Suc k) (length (remove1 p (timer_list w))),
               timer_list := take k (remove1 p (timer_list w)) @ p # drop k (remove1 p (timer_list w)),
               trace := trace w @ [EUnlink p,
                  if k < length (remove1 p (timer_list w)) then ELink p else EAppend p,
                  EPostTask (func (mem w p)) (arg (mem w p))]\<rparr>"
        by blast
      show ?thesis
        by (rule ok_relink [OF ok p, of _ k]) (simp_all add: E)
    qed
  qed
qed

lemma ok_Set:
  assumes ok: "registry_ok ids w" and "is_running w" and "p \<notin> live w"
    and ne: "id_count w \<noteq> INT_MAX"
    and r: "LCUITimer_Set (Some p) n_ms fn a ru w = Inr (i, w')"
  shows "i = id_count w + 1 \<and> registry_ok (ids @ [i]) w'"
proof -
  from LCUITimer_Set_effect [OF assms(2) ne, of p n_ms fn a ru] r
  obtain k where i: "i = id_count w + 1"
    and E: "w' = w\<lparr>live := insert p (live w),
                    id_count := id_count w + 1,
                    mem := (mem w)(p := (mem w p)\<lparr>arg := a, func := fn, reuse := ru,
                             pause_ms := 0, total_ms := n_ms, state := STATE_RUN,
                             id' := id_count w + 1, start_time := clock w (ticks w)\<rparr>),
                    ticks := ticks w + 2 + min (Suc k) (length (timer_list w)),
                    timer_list := take k (timer_list w) @ p # drop k (timer_list w),
                    trace := trace w @ [EMutexLock,
                       if k < length (timer_list w) then ELink p else EAppend p,
                       ECondSignal, EMutexUnlock]\<rparr>"
    by auto
  have "registry_ok (ids @ [id_count w + 1]) w'"
    by (rule ok_set [OF ok assms(3), of _ k]) (simp_all add: E)
  with i show ?thesis by simp
qed

lemma fold_free_frame:
  "id_count (fold free xs w) = id_count w \<and> timer_list (fold free xs w) = timer_list w"
  by (induction xs arbitrary: w) (simp_all add: free_def emit_def)

lemma ok_empty:
  assumes "registry_ok ids w" and "id_count w' = id_count w" and "timer_list w' = []"
  shows "registry_ok ids w'"
  using assms unfolding registry_ok_def by simp

lemma ok_InitTimer: "registry_ok ids w \<Longrightarrow> registry_ok ids (LCUI_InitTimer w)"
  by (erule ok_empty) (simp_all add: LCUI_InitTimer_def LinkedList_Init_def Let_def prims)

lemma ok_FreeTimer: "registry_ok ids w \<Longrightarrow> registry_ok ids (LCUI_FreeTimer w)"
  by (erule ok_empty)
    (simp_all add: LCUI_FreeTimer_def LinkedList_ClearData_def Let_def fold_free_frame
      emit_def LCUIMutex_Lock_def LCUIMutex_Unlock_def LCUICond_Broadcast_def)

lemma reach_ok: "reach ids w \<Longrightarrow> registry_ok ids w"
proof (induction rule: reach.induct)
  case (start w)
  then show ?case by (simp add: registry_ok_def)
next
  case (set ids w p n_ms fn a ru i w')
  from ok_Set [OF set.IH set.hyps(2,3,4,5)] show ?case by blast
qed (simp_all add: ok_InitTimer ok_FreeTimer ok_Free ok_Pause ok_Continue ok_Reset ok_body)

text \<open>In every history the registry is empty whenever the service is not running, so an
  id-based call that finds its entry has passed the \<^verbatim>\<open>is_running\<close> guard.\<close>

lemma body_running: "is_running (TimerThread_body w) = is_running w"
proof (cases "find (\<lambda>node. state (mem w node) = STATE_RUN) (timer_list w)")
  case None
  show ?thesis by (simp add: TimerThread_body_idle [OF None])
next
  case (Some p)
  show ?thesis
  proof (cases "elapsed_ms (mem w p) (clock w (ticks w)) <s total_ms (mem w p)")
    case True
    show ?thesis by (simp add: TimerThread_body_wait [OF Some True])
  next
    case False
    then have due: "total_ms (mem w p) \<le>s elapsed_ms (mem w p) (clock w (ticks w))"
      by (simp add: signed.not_less)
    show ?thesis
    proof (cases "reuse (mem w p)")
      case False
      show ?thesis by (simp add: TimerThread_body_fire_once [OF Some due False])
    next
      case True
      from TimerThread_body_fire_again [OF Some due True] show ?thesis by auto
    qed
  qed
qed

lemma reach_serving: "reach ids w \<Longrightarrow> is_running w \<or> timer_list w = []"
proof (induction rule: reach.induct)
  case (start w)
  then show ?case by simp
next
  case (init ids w)
  show ?case by (simp add: LCUI_InitTimer_def LinkedList_Init_def Let_def prims)
next
  case (shutdown ids w)
  show ?case
    by (simp add: LCUI_FreeTimer_def LinkedList_ClearData_def Let_def fold_free_frame
        emit_def LCUIMutex_Lock_def LCUIMutex_Unlock_def LCUICond_Broadcast_def)
next
  case (set ids w p n_ms fn a ru i w')
  from LCUITimer_Set_effect [OF set.hyps(2,4), of p n_ms fn a ru] set.hyps(5)
  have "is_running w' = is_running w" by auto
  with set.hyps(2) show ?case by simp
next
  case (free ids w i)
  then show ?case
    by (cases "TimerList_Find i w")
      (auto simp add: LCUITimer_Free_def Let_def prims Find_empty)
next
  case (pause ids w i)
  then show ?case
    by (cases "TimerList_Find i w")
      (auto simp add: LCUITimer_Pause_def Let_def prims Find_empty)
next
  case (continue ids w i)
  then show ?case
    by (cases "TimerList_Find i w")
      (auto simp add: LCUITimer_Continue_def Let_def prims Find_empty)
next
  case (reset ids w i n_ms)
  then show ?case
    by (cases "TimerList_Find i w")
      (auto simp add: LCUITimer_Reset_def Let_def prims Find_empty)
next
  case (tick ids w)
  then show ?case by (simp add: body_running)
qed

lemma one_eq:
  "LCUITimer_SetTimeout (Some 10) 50 7 8 (LCUI_InitTimer boot) = Inr (1, one) \<and>
   one = \<lparr>id_count = 1, timer_list = [10], is_running = True,
           mem = (\<lambda>_. blank)(10 := blank\<lparr>arg := 8, func := 7, reuse := False, pause_ms := 0,
                   total_ms := 50, state := 1, id' := 1, start_time := 100\<rparr>),
           live = {10}, clock = (\<lambda>k. 100 + of_nat k), ticks = 2,
           trace = [ETimeInit, EMutexInit, ECondInit, EThreadCreate,
                    EMutexLock, EAppend 10, ECondSignal, EMutexUnlock]\<rparr>"
  by (simp add: one_def LCUITimer_SetTimeout_def LCUITimer_Set_def LCUI_InitTimer_def
      LinkedList_Init_def TimerList_AddNode_def prims Let_def boot_def INT_MAX_def STATE_RUN_def)

lemma reach_one: "reach [1] one"
proof -
  have "reach [] boot"
    by (rule reach.start) (simp_all add: boot_def)
  then have r: "reach [] (LCUI_InitTimer boot)"
    by (rule reach.init)
  have "reach ([] @ [1]) one"
    by (rule reach.set [OF r _ _ _ one_eq [THEN conjunct1, unfolded LCUITimer_SetTimeout_def]])
      (simp_all add: LCUI_InitTimer_def LinkedList_Init_def prims Let_def boot_def INT_MAX_def)
  then show ?thesis by simp
qed

text \<open>Claim C6 (as the code has it). When the module is not running
  \<^verbatim>\<open>LCUITimer_Set\<close> returns -1 and does nothing. When it is running, \<^verbatim>\<open>malloc\<close>
  has returned a block \<open>p\<close> and the \<^verbatim>\<open>int\<close> counter is below \<open>INT_MAX\<close>, the call
  returns an id that is positive, greater than every id handed out before in the history and
  carried by no entry of the registry; the entry at \<open>p\<close> has that id, state
  \<open>STATE_RUN\<close>, \<open>pause_ms = 0\<close>, \<open>start_time\<close> the clock reading of the call and the
  duration, callback, argument and repeat flag passed in; no other entry changes; \<open>p\<close> is
  linked into the registry and the wake condition is signalled after that, under the mutex.
  \<^verbatim>\<open>LCUITimer_SetTimeout\<close> and \<^verbatim>\<open>LCUITimer_SetInterval\<close> are
  \<^verbatim>\<open>LCUITimer_Set\<close> with the repeat flag false and true.\<close>

theorem LCUITimer_Set_fresh:
  assumes "reach ids w"
  shows "(\<not> is_running w \<longrightarrow> LCUITimer_Set m n_ms fn a ru w = Inr (- 1, w)) \<and>
         (is_running w \<and> p \<notin> live w \<and> id_count w < INT_MAX \<longrightarrow>
            (\<exists>i w' k.
               LCUITimer_Set (Some p) n_ms fn a ru w = Inr (i, w') \<and>
               0 < i \<and> (\<forall>j \<in> set ids. j < i) \<and> i \<notin> set (entry_ids w) \<and>
               reach (ids @ [i]) w' \<and>
               mem w' = (mem w)(p := (mem w p)\<lparr>arg := a, func := fn, reuse := ru,
                          pause_ms := 0, total_ms := n_ms, state := STATE_RUN,
                          id' := i, start_time := clock w (ticks w)\<rparr>) \<and>
               k \<le> length (timer_list w) \<and>
               timer_list w' = take k (timer_list w) @ p # drop k (timer_list w) \<and>
               new_events w w' =
                 [EMutexLock, if k < length (timer_list w) then ELink p else EAppend p,
                  ECondSignal, EMutexUnlock])) \<and>
         LCUITimer_SetTimeout m n_ms fn a w = LCUITimer_Set m n_ms fn a False w \<and>
         LCUITimer_SetInterval m n_ms fn a w = LCUITimer_Set m n_ms fn a True w"
proof (intro conjI impI)
  show "\<not> is_running w \<Longrightarrow> LCUITimer_Set m n_ms fn a ru w = Inr (- 1, w)"
    by (simp add: LCUITimer_Set_def)
next
  assume h: "is_running w \<and> p \<notin> live w \<and> id_count w < INT_MAX"
  then have run: "is_running w" and fresh: "p \<notin> live w" and ne: "id_count w \<noteq> INT_MAX"
    by simp_all
  have ok: "registry_ok ids w" by (rule reach_ok [OF assms])
  let ?i = "id_count w + 1"
  from LCUITimer_Set_effect [OF run ne, of p n_ms fn a ru]
  obtain k w' where k: "k \<le> length (timer_list w)"
    and S: "LCUITimer_Set (Some p) n_ms fn a ru w = Inr (?i, w')"
    and E: "w' = w\<lparr>live := insert p (live w),
                    id_count := id_count w + 1,
                    mem := (mem w)(p := (mem w p)\<lparr>arg := a, func := fn, reuse := ru,
                             pause_ms := 0, total_ms := n_ms, state := STATE_RUN,
                             id' := id_count w + 1, start_time := clock w (ticks w)\<rparr>),
                    ticks := ticks w + 2 + min (Suc k) (length (timer_list w)),
                    timer_list := take k (timer_list w) @ p # drop k (timer_list w),
                    trace := trace w @ [EMutexLock,
                       if k < length (timer_list w) then ELink p else EAppend p,
                       ECondSignal, EMutexUnlock]\<rparr>"
    by blast
  have pos: "0 < ?i" using registry_okD(1) [OF ok] by simp
  have above: "\<forall>j \<in> set ids. j < ?i" using registry_okD(3) [OF ok] by fastforce
  have unused: "?i \<notin> set (entry_ids w)"
    using registry_okD(6) [OF ok] above by (fastforce simp add: entry_ids_def)
  have r: "reach (ids @ [?i]) w'"
    by (rule reach.set [OF assms run fresh ne S])
  have "mem w' = (mem w)(p := (mem w p)\<lparr>arg := a, func := fn, reuse := ru,
                          pause_ms := 0, total_ms := n_ms, state := STATE_RUN,
                          id' := ?i, start_time := clock w (ticks w)\<rparr>)"
    and "timer_list w' = take k (timer_list w) @ p # drop k (timer_list w)"
    and "new_events w w' =
                 [EMutexLock, if k < length (timer_list w) then ELink p else EAppend p,
                  ECondSignal, EMutexUnlock]"
    by (simp_all add: E)
  with S pos above unused r k
  show "\<exists>i w' k.
               LCUITimer_Set (Some p) n_ms fn a ru w = Inr (i, w') \<and>
               0 < i \<and> (\<forall>j \<in> set ids. j < i) \<and> i \<notin> set (entry_ids w) \<and>
               reach (ids @ [i]) w' \<and>
               mem w' = (mem w)(p := (mem w p)\<lparr>arg := a, func := fn, reuse := ru,
                          pause_ms := 0, total_ms := n_ms, state := STATE_RUN,
                          id' := i, start_time := clock w (ticks w)\<rparr>) \<and>
               k \<le> length (timer_list w) \<and>
               timer_list w' = take k (timer_list w) @ p # drop k (timer_list w) \<and>
               new_events w w' =
                 [EMutexLock, if k < length (timer_list w) then ELink p else EAppend p,
                  ECondSignal, EMutexUnlock]"
    by blast
qed (simp_all add: LCUITimer_SetTimeout_def LCUITimer_SetInterval_def)

theorem LCUITimer_Set_fresh_witness:
  "reach [1] one \<and> is_running one \<and> 20 \<notin> live one \<and> id_count one < INT_MAX \<and>
   entry_ids one = [1] \<and>
   (\<exists>i w'. LCUITimer_Set (Some 20) 200 9 4 True one = Inr (i, w') \<and> 1 < i \<and>
      reach [1, i] w' \<and> state (mem w' 20) = STATE_RUN \<and> pause_ms (mem w' 20) = 0 \<and>
      start_time (mem w' 20) = 102 \<and> id' (mem w' 20) = i) \<and>
   (case LCUITimer_SetInterval (Some 20) 200 9 4 one of
      Inr (i, w') \<Rightarrow> i = 2 \<and> timer_list w' = [10, 20]
    | Inl e \<Rightarrow> False) \<and>
   LCUITimer_Set (Some 20) 200 9 4 True boot = Inr (- 1, boot)"
proof -
  note o = one_eq [THEN conjunct2]
  have a: "is_running one" "20 \<notin> live one" "id_count one < INT_MAX" "entry_ids one = [1]"
    "clock one (ticks one) = 102"
    by (simp_all add: o INT_MAX_def entry_ids_def blank_def)
  have b: "\<not> is_running boot" by (simp add: boot_def)
  have "reach [] boot"
    by (rule reach.start) (simp_all add: boot_def)
  note B = LCUITimer_Set_fresh [OF this, of "Some 20" 200 9 4 True 20]
  note T = LCUITimer_Set_fresh [OF reach_one, of "Some 20" 200 9 4 True 20]
  have c: "\<exists>i w'. LCUITimer_Set (Some 20) 200 9 4 True one = Inr (i, w') \<and> 1 < i \<and>
      reach [1, i] w' \<and> state (mem w' 20) = STATE_RUN \<and> pause_ms (mem w' 20) = 0 \<and>
      start_time (mem w' 20) = 102 \<and> id' (mem w' 20) = i"
    using T a by auto
  have d: "(case LCUITimer_SetInterval (Some 20) 200 9 4 one of
      Inr (i, w') \<Rightarrow> i = 2 \<and> timer_list w' = [10, 20]
    | Inl e \<Rightarrow> False)"
    by (simp add: o LCUITimer_SetInterval_def LCUITimer_Set_def TimerList_AddNode_def prims
        Let_def INT_MAX_def STATE_RUN_def blank_def)
  have e: "LCUITimer_Set (Some 20) 200 9 4 True boot = Inr (- 1, boot)"
    using B b by simp
  show ?thesis
    by (intro conjI) (fact reach_one a c d e)+
qed

text \<open>With the counter at \<open>INT_MAX\<close> the id returned is \<open>INT_MIN\<close>: negative, and below
  the ids 1 and 2 of the entries in the registry.\<close>

theorem LCUITimer_Set_wrap_counterexample:
  "is_running full \<and> 30 \<notin> live full \<and> id_count full = INT_MAX \<and> entry_ids full = [1, 2] \<and>
   (case LCUITimer_Set (Some 30) 50 7 8 False full of
      Inr (i, w') \<Rightarrow> i = - 2147483648 \<and> id' (mem w' 30) = - 2147483648
    | Inl e \<Rightarrow> False)"
  by (simp add: LCUITimer_Set_def TimerList_AddNode_def prims Let_def entry_ids_def
      INT_MAX_def INT_MIN_def sample_defs)

text \<open>Claim C9 (the code does not do this). When \<^verbatim>\<open>malloc\<close> returns
  \<^verbatim>\<open>NULL\<close> in a running module, \<^verbatim>\<open>LCUITimer_Set\<close> does not return an error
  code: it assigns through the null pointer.\<close>

theorem LCUITimer_Set_null_block:
  "is_running sample \<and> LCUITimer_Set None 50 7 8 False sample = Inl NullDereference"
  by (simp add: LCUITimer_Set_def sample_def)

subsection \<open>Cancelling a timer\<close>

lemma unlinked_id_gone:
  assumes "distinct (entry_ids w)" and "p \<in> set (timer_list w)"
    and "mem w' = mem w" and "timer_list w' = remove1 p (timer_list w)"
  shows "TimerList_Find (id' (mem w p)) w' = None"
proof -
  from assms(1) have d: "distinct (timer_list w)"
    and inj: "inj_on (\<lambda>q. id' (mem w q)) (set (timer_list w))"
    by (simp_all add: entry_ids_def distinct_map)
  have "id' (mem w q) \<noteq> id' (mem w p)" if "q \<in> set (remove1 p (timer_list w))" for q
  proof -
    from that d have "q \<in> set (timer_list w)" and "q \<noteq> p" by auto
    with inj assms(2) show ?thesis by (auto simp add: inj_on_def)
  qed
  then show ?thesis
    by (simp add: TimerList_Find_None_iff assms(3,4))
qed

lemma Free_found:
  assumes "is_running w" and "TimerList_Find timer_id w = Some p"
  shows "LCUITimer_Free timer_id w =
           (0, w\<lparr>timer_list := remove1 p (timer_list w),
                 live := live w - {p},
                 trace := trace w @ [EMutexLock, EUnlink p, EFree p, ECondSignal, EMutexUnlock]\<rparr>)"
  using assms by (simp add: LCUITimer_Free_def Let_def prims)

lemma Free_missing:
  assumes "is_running w" and "TimerList_Find timer_id w = None"
  shows "LCUITimer_Free timer_id w = (- 1, w\<lparr>trace := trace w @ [EMutexLock, EMutexUnlock]\<rparr>)"
  using assms by (simp add: LCUITimer_Free_def Let_def prims)

lemma Free_stopped:
  assumes "\<not> is_running w"
  shows "LCUITimer_Free timer_id w = (- 1, w)"
  using assms by (simp add: LCUITimer_Free_def)

lemma Free_absent:
  assumes "is_running w \<or> timer_list w = []" and "TimerList_Find timer_id w = None"
  shows "fst (LCUITimer_Free timer_id w) = - 1 \<and>
         timer_list (snd (LCUITimer_Free timer_id w)) = timer_list w \<and>
         mem (snd (LCUITimer_Free timer_id w)) = mem w \<and>
         is_running (snd (LCUITimer_Free timer_id w)) = is_running w"
proof (cases "is_running w")
  case True
  then show ?thesis by (simp add: Free_missing [OF True assms(2)])
next
  case False
  then show ?thesis by (simp add: Free_stopped)
qed

text \<open>Claim C7. In a state where the registry is empty unless the service runs (every state
  of a history), \<^verbatim>\<open>LCUITimer_Free\<close> returns 0 exactly when some entry of the registry
  carries the id. It then unlinks the entry that \<^verbatim>\<open>TimerList_Find\<close> finds, frees its
  block and signals the wake condition, in this order and under the mutex; otherwise it returns
  -1. With the ids of the registry distinct, a second call with the same id returns -1, and
  so does a call with the id of a one-shot entry that the timer thread has just fired.\<close>

theorem LCUITimer_Free_once:
  assumes "is_running w \<or> timer_list w = []"
  shows "(fst (LCUITimer_Free timer_id w) = 0 \<longleftrightarrow> timer_id \<in> set (entry_ids w)) \<and>
         (TimerList_Find timer_id w = Some p \<longrightarrow>
            LCUITimer_Free timer_id w =
              (0, w\<lparr>timer_list := remove1 p (timer_list w),
                    live := live w - {p},
                    trace := trace w @
                      [EMutexLock, EUnlink p, EFree p, ECondSignal, EMutexUnlock]\<rparr>)) \<and>
         (timer_id \<notin> set (entry_ids w) \<longrightarrow> fst (LCUITimer_Free timer_id w) = - 1) \<and>
         (distinct (entry_ids w) \<longrightarrow>
            fst (LCUITimer_Free timer_id (snd (LCUITimer_Free timer_id w))) = - 1) \<and>
         (distinct (entry_ids w) \<and> fired w p \<and> \<not> reuse (mem w p) \<and> id' (mem w p) = timer_id \<longrightarrow>
            fst (LCUITimer_Free timer_id (TimerThread_body w)) = - 1)"
proof (intro conjI impI)
  have found: "is_running w" if "TimerList_Find timer_id w = Some q" for q
    using assms that by (auto simp add: Find_empty)
  show "fst (LCUITimer_Free timer_id w) = 0 \<longleftrightarrow> timer_id \<in> set (entry_ids w)"
  proof (cases "TimerList_Find timer_id w")
    case None
    with Free_absent [OF assms None] show ?thesis
      by (simp add: Find_None_entry_ids)
  next
    case (Some q)
    then have "timer_id \<in> set (entry_ids w)"
      using Find_None_entry_ids [of timer_id w] by simp
    with Free_found [OF found [OF Some] Some] show ?thesis by simp
  qed
  show "LCUITimer_Free timer_id w =
              (0, w\<lparr>timer_list := remove1 p (timer_list w),
                    live := live w - {p},
                    trace := trace w @
                      [EMutexLock, EUnlink p, EFree p, ECondSignal, EMutexUnlock]\<rparr>)"
    if "TimerList_Find timer_id w = Some p"
    using that by (simp add: Free_found [OF found [OF that]])
  show "fst (LCUITimer_Free timer_id w) = - 1" if "timer_id \<notin> set (entry_ids w)"
    using that Free_absent [OF assms, of timer_id] by (simp add: Find_None_entry_ids)
  show "fst (LCUITimer_Free timer_id (snd (LCUITimer_Free timer_id w))) = - 1"
    if d: "distinct (entry_ids w)"
  proof (cases "TimerList_Find timer_id w")
    case None
    let ?w' = "snd (LCUITimer_Free timer_id w)"
    note A = Free_absent [OF assms None]
    have "TimerList_Find timer_id ?w' = None"
      using None A by (simp add: TimerList_Find_def)
    moreover have "is_running ?w' \<or> timer_list ?w' = []"
      using assms A by simp
    ultimately show ?thesis
      using Free_absent [of ?w' timer_id] by simp
  next
    case (Some q)
    let ?w' = "w\<lparr>timer_list := remove1 q (timer_list w), live := live w - {q},
                trace := trace w @ [EMutexLock, EUnlink q, EFree q, ECondSignal, EMutexUnlock]\<rparr>"
    from TimerList_Find_mem [OF Some]
    have q: "q \<in> set (timer_list w)" and i: "id' (mem w q) = timer_id" by simp_all
    have "TimerList_Find (id' (mem w q)) ?w' = None"
      by (rule unlinked_id_gone [OF d q]) simp_all
    then have "LCUITimer_Free timer_id ?w' =
            (- 1, ?w'\<lparr>trace := trace ?w' @ [EMutexLock, EMutexUnlock]\<rparr>)"
      by (intro Free_missing) (simp_all add: found [OF Some] i)
    then show ?thesis by (simp add: Free_found [OF found [OF Some] Some])
  qed
  show "fst (LCUITimer_Free timer_id (TimerThread_body w)) = - 1"
    if a: "distinct (entry_ids w) \<and> fired w p \<and> \<not> reuse (mem w p) \<and> id' (mem w p) = timer_id"
  proof -
    from a have f: "find (\<lambda>node. state (mem w node) = STATE_RUN) (timer_list w) = Some p"
      and due: "total_ms (mem w p) \<le>s elapsed_ms (mem w p) (clock w (ticks w))"
      by (simp_all add: fired_iff)
    from a have once: "\<not> reuse (mem w p)" by simp
    let ?w' = "TimerThread_body w"
    note E = TimerThread_body_fire_once [OF f due once]
    from f have p: "p \<in> set (timer_list w)" by (simp add: find_Some_mem)
    have "TimerList_Find (id' (mem w p)) ?w' = None"
      by (rule unlinked_id_gone [of w]) (use a p in \<open>simp_all add: E\<close>)
    moreover have "is_running ?w' \<or> timer_list ?w' = []"
      using assms p by (auto simp add: E)
    ultimately show ?thesis
      using a Free_absent [of ?w' timer_id] by simp
  qed
qed

theorem LCUITimer_Free_once_witness:
  "is_running sample \<and> entry_ids sample = [1, 2] \<and> TimerList_Find 1 sample = Some 10 \<and>
   LCUITimer_Free 1 sample =
     (0, sample\<lparr>timer_list := [20], live := {20},
                trace := [EMutexLock, EUnlink 10, EFree 10, ECondSignal, EMutexUnlock]\<rparr>) \<and>
   LCUITimer_Free 5 sample = (- 1, sample\<lparr>trace := [EMutexLock, EMutexUnlock]\<rparr>) \<and>
   fst (LCUITimer_Free 1 (snd (LCUITimer_Free 1 sample))) = - 1 \<and>
   fired sample 10 \<and> \<not> reuse (mem sample 10) \<and> id' (mem sample 10) = 1 \<and>
   fst (LCUITimer_Free 1 (TimerThread_body sample)) = - 1"
proof -
  have r: "is_running sample" by (simp add: sample_def)
  have a: "fired sample 10"
    by (simp add: fired_def new_events_def TimerThread_body_def prims Let_def sample_defs)
  have b: "entry_ids sample = [1, 2]"
    by (simp add: entry_ids_def sample_defs)
  have c: "TimerList_Find 1 sample = Some 10"
    by (simp add: TimerList_Find_def sample_defs)
  have e: "\<not> reuse (mem sample 10)" "id' (mem sample 10) = 1"
    by (simp_all add: sample_defs)
  have f: "remove1 10 (timer_list sample) = [20]" "live sample - {10} = {20}" "trace sample = []"
    by (simp_all add: sample_defs insert_Diff_if)
  have r': "is_running sample \<or> timer_list sample = []" using r by simp
  note T = LCUITimer_Free_once [OF r', of 1 10]
  have g1: "LCUITimer_Free 1 sample =
     (0, sample\<lparr>timer_list := [20], live := {20},
                trace := [EMutexLock, EUnlink 10, EFree 10, ECondSignal, EMutexUnlock]\<rparr>)"
    using T c f by simp
  have g2: "LCUITimer_Free 5 sample = (- 1, sample\<lparr>trace := [EMutexLock, EMutexUnlock]\<rparr>)"
    by (simp add: Free_missing r TimerList_Find_def sample_defs)
  have g3: "fst (LCUITimer_Free 1 (snd (LCUITimer_Free 1 sample))) = - 1"
    using T b by simp
  have g4: "fst (LCUITimer_Free 1 (TimerThread_body sample)) = - 1"
    using T a b e by simp
  show ?thesis
    by (intro conjI) (fact r a b c e g1 g2 g3 g4)+
qed

subsection \<open>Pause, continue and reset\<close>

lemma find_first:
  "(\<forall>q \<in> set pre. \<not> P q) \<Longrightarrow> P p \<Longrightarrow> find P (pre @ p # post) = Some p"
  by (induction pre) simp_all

lemma TimerList_Find_first:
  assumes "timer_list w = pre @ p # post" and "id' (mem w p) = i"
    and "\<forall>q \<in> set pre. id' (mem w q) \<noteq> i"
  shows "TimerList_Find i w = Some p"
  unfolding TimerList_Find_def assms(1) using assms(2,3) by (intro find_first) simp_all

lemma Reset_found:
  assumes "is_running w" and "TimerList_Find timer_id w = Some p"
  shows "LCUITimer_Reset timer_id n_ms w =
           (0, w\<lparr>ticks := Suc (ticks w),
                 mem := (mem w)(p := (mem w p)\<lparr>pause_ms := 0, total_ms := n_ms,
                                                start_time := clock w (ticks w)\<rparr>),
                 trace := trace w @ [EMutexLock, ECondSignal, EMutexUnlock]\<rparr>)"
  using assms by (simp add: LCUITimer_Reset_def Let_def prims)

lemma Continue_found:
  assumes "is_running w" and "TimerList_Find timer_id w = Some p"
  shows "LCUITimer_Continue timer_id w =
           (0, w\<lparr>ticks := Suc (ticks w),
                 mem := (mem w)(p := (mem w p)
                    \<lparr>pause_ms := pause_ms (mem w p) + (clock w (ticks w) - pause_time (mem w p)),
                     state := STATE_RUN\<rparr>),
                 trace := trace w @ [EMutexLock, ECondSignal, EMutexUnlock]\<rparr>)"
  using assms by (simp add: LCUITimer_Continue_def Let_def prims)

text \<open>Claim C8 (as the code has it). In a state where the registry is empty unless the service
  runs (every state of a history), let \<open>p\<close> be the first entry of the registry that carries
  the id. \<^verbatim>\<open>LCUITimer_Reset\<close> returns 0 and changes exactly three fields of that entry:
  \<open>pause_ms\<close> becomes 0, \<open>total_ms\<close> the new duration and \<open>start_time\<close> the clock
  reading taken in the call. The entry's \<open>state\<close>, its \<open>pause_time\<close> and other fields,
  every other entry, the order of the registry, the set of allocated blocks and the id counter
  are as before; the wake condition is signalled. If the entry is the running entry that the
  timer thread looks at, the next iteration fires it exactly when the time since the call has
  reached the new duration, and otherwise waits for the rest of it: the countdown has restarted
  at the call. If the entry is paused, a following \<^verbatim>\<open>LCUITimer_Continue\<close> puts the
  whole time since the old \<open>pause_time\<close> on \<open>pause_ms\<close>, the part before the reset
  included. When no entry carries the id the call returns -1 and the registry and its entries
  are as before.\<close>

theorem LCUITimer_Reset_frame:
  assumes "is_running w \<or> timer_list w = []"
  shows "(timer_list w = pre @ p # post \<and> id' (mem w p) = timer_id \<and>
          (\<forall>q \<in> set pre. id' (mem w q) \<noteq> timer_id) \<longrightarrow>
            (\<exists>w'. LCUITimer_Reset timer_id n_ms w = (0, w') \<and>
               w' = w\<lparr>ticks := Suc (ticks w),
                      mem := (mem w)(p := (mem w p)\<lparr>pause_ms := 0, total_ms := n_ms,
                                                     start_time := clock w (ticks w)\<rparr>),
                      trace := trace w @ [EMutexLock, ECondSignal, EMutexUnlock]\<rparr> \<and>
               timer_list w' = timer_list w \<and>
               state (mem w' p) = state (mem w p) \<and>
               pause_time (mem w' p) = pause_time (mem w p) \<and>
               (find (\<lambda>node. state (mem w node) = STATE_RUN) (timer_list w) = Some p \<longrightarrow>
                  (fired w' p \<longleftrightarrow> n_ms \<le>s clock w (Suc (ticks w)) - clock w (ticks w)) \<and>
                  (clock w (Suc (ticks w)) - clock w (ticks w) <s n_ms \<longrightarrow>
                     TimerThread_body w' =
                       w'\<lparr>ticks := Suc (Suc (ticks w)),
                          trace := trace w' @ [ECondTimedWait
                            (n_ms - (clock w (Suc (ticks w)) - clock w (ticks w)))]\<rparr>)) \<and>
               (state (mem w p) = STATE_PAUSE \<longrightarrow>
                  pause_ms (mem (snd (LCUITimer_Continue timer_id w')) p) =
                    clock w (Suc (ticks w)) - pause_time (mem w p)))) \<and>
         (timer_id \<notin> set (entry_ids w) \<longrightarrow>
            fst (LCUITimer_Reset timer_id n_ms w) = - 1 \<and>
            timer_list (snd (LCUITimer_Reset timer_id n_ms w)) = timer_list w \<and>
            mem (snd (LCUITimer_Reset timer_id n_ms w)) = mem w)"
proof (intro conjI impI)
  assume h: "timer_list w = pre @ p # post \<and> id' (mem w p) = timer_id \<and>
          (\<forall>q \<in> set pre. id' (mem w q) \<noteq> timer_id)"
  then have found: "TimerList_Find timer_id w = Some p"
    by (blast intro: TimerList_Find_first)
  from h assms have run: "is_running w" by auto
  let ?w' = "w\<lparr>ticks := Suc (ticks w),
                mem := (mem w)(p := (mem w p)\<lparr>pause_ms := 0, total_ms := n_ms,
                                               start_time := clock w (ticks w)\<rparr>),
                trace := trace w @ [EMutexLock, ECondSignal, EMutexUnlock]\<rparr>"
  note R = Reset_found [OF run found, of n_ms]
  have st: "state (mem ?w' q) = state (mem w q)" for q by simp
  have sched: "(fired ?w' p \<longleftrightarrow> n_ms \<le>s clock w (Suc (ticks w)) - clock w (ticks w)) \<and>
      (clock w (Suc (ticks w)) - clock w (ticks w) <s n_ms \<longrightarrow>
         TimerThread_body ?w' =
           ?w'\<lparr>ticks := Suc (Suc (ticks w)),
               trace := trace ?w' @ [ECondTimedWait
                 (n_ms - (clock w (Suc (ticks w)) - clock w (ticks w)))]\<rparr>)"
    if f: "find (\<lambda>node. state (mem w node) = STATE_RUN) (timer_list w) = Some p"
  proof -
    have f': "find (\<lambda>node. state (mem ?w' node) = STATE_RUN) (timer_list ?w') = Some p"
      using f by (simp only: st) simp
    have e: "elapsed_ms (mem ?w' p) (clock ?w' (ticks ?w')) =
        clock w (Suc (ticks w)) - clock w (ticks w)"
      and t: "total_ms (mem ?w' p) = n_ms"
      by (simp_all add: elapsed_ms_def)
    have "fired ?w' p \<longleftrightarrow> n_ms \<le>s clock w (Suc (ticks w)) - clock w (ticks w)"
      unfolding fired_iff using f' by (simp only: e t) simp
    moreover have "TimerThread_body ?w' =
           ?w'\<lparr>ticks := Suc (Suc (ticks w)),
               trace := trace ?w' @ [ECondTimedWait
                 (n_ms - (clock w (Suc (ticks w)) - clock w (ticks w)))]\<rparr>"
      if "clock w (Suc (ticks w)) - clock w (ticks w) <s n_ms"
    proof -
      from that have "elapsed_ms (mem ?w' p) (clock ?w' (ticks ?w')) <s total_ms (mem ?w' p)"
        by (simp only: e t)
      from TimerThread_body_wait [OF f' this] show ?thesis
        by (simp only: e t) simp
    qed
    ultimately show ?thesis by blast
  qed
  have cont: "pause_ms (mem (snd (LCUITimer_Continue timer_id ?w')) p) =
      clock w (Suc (ticks w)) - pause_time (mem w p)"
  proof -
    have "timer_list ?w' = pre @ p # post" "id' (mem ?w' p) = timer_id"
      "\<forall>q \<in> set pre. id' (mem ?w' q) \<noteq> timer_id"
      using h by auto
    then have "TimerList_Find timer_id ?w' = Some p"
      by (rule TimerList_Find_first)
    moreover have "is_running ?w'" using run by simp
    ultimately show ?thesis
      by (simp add: Continue_found)
  qed
  show "\<exists>w'. LCUITimer_Reset timer_id n_ms w = (0, w') \<and>
               w' = w\<lparr>ticks := Suc (ticks w),
                      mem := (mem w)(p := (mem w p)\<lparr>pause_ms := 0, total_ms := n_ms,
                                                     start_time := clock w (ticks w)\<rparr>),
                      trace := trace w @ [EMutexLock, ECondSignal, EMutexUnlock]\<rparr> \<and>
               timer_list w' = timer_list w \<and>
               state (mem w' p) = state (mem w p) \<and>
               pause_time (mem w' p) = pause_time (mem w p) \<and>
               (find (\<lambda>node. state (mem w node) = STATE_RUN) (timer_list w) = Some p \<longrightarrow>
                  (fired w' p \<longleftrightarrow> n_ms \<le>s clock w (Suc (ticks w)) - clock w (ticks w)) \<and>
                  (clock w (Suc (ticks w)) - clock w (ticks w) <s n_ms \<longrightarrow>
                     TimerThread_body w' =
                       w'\<lparr>ticks := Suc (Suc (ticks w)),
                          trace := trace w' @ [ECondTimedWait
                            (n_ms - (clock w (Suc (ticks w)) - clock w (ticks w)))]\<rparr>)) \<and>
               (state (mem w p) = STATE_PAUSE \<longrightarrow>
                  pause_ms (mem (snd (LCUITimer_Continue timer_id w')) p) =
                    clock w (Suc (ticks w)) - pause_time (mem w p))"
  proof (intro exI [of _ ?w'] conjI impI)
    show "LCUITimer_Reset timer_id n_ms w = (0, ?w')" by (rule R)
    show "timer_list ?w' = timer_list w" "state (mem ?w' p) = state (mem w p)"
      "pause_time (mem ?w' p) = pause_time (mem w p)"
      by simp_all
    show "pause_ms (mem (snd (LCUITimer_Continue timer_id ?w')) p) =
                    clock w (Suc (ticks w)) - pause_time (mem w p)"
      by (rule cont)
  qed (use sched in \<open>blast+\<close>)
next
  assume "timer_id \<notin> set (entry_ids w)"
  then have nf: "TimerList_Find timer_id w = None"
    by (simp add: Find_None_entry_ids)
  then show "fst (LCUITimer_Reset timer_id n_ms w) = - 1"
    "timer_list (snd (LCUITimer_Reset timer_id n_ms w)) = timer_list w"
    "mem (snd (LCUITimer_Reset timer_id n_ms w)) = mem w"
    by (simp_all add: LCUITimer_Reset_def Let_def prims)
qed

theorem LCUITimer_Reset_frame_witness:
  "is_running sample \<and> timer_list sample = [] @ 10 # [20] \<and> timer_list sample = [10] @ 20 # [] \<and>
   id' (mem sample 10) = 1 \<and> id' (mem sample 20) = 2 \<and> entry_ids sample = [1, 2] \<and>
   find (\<lambda>node. state (mem sample node) = STATE_RUN) (timer_list sample) = Some 10 \<and>
   state (mem sample 20) = STATE_PAUSE \<and>
   LCUITimer_Reset 1 30 sample =
     (0, sample\<lparr>ticks := 1,
                mem := (mem sample)(10 := timerA\<lparr>pause_ms := 0, total_ms := 30, start_time := 100\<rparr>),
                trace := [EMutexLock, ECondSignal, EMutexUnlock]\<rparr>) \<and>
   \<not> fired (snd (LCUITimer_Reset 1 30 sample)) 10 \<and>
   new_events (snd (LCUITimer_Reset 1 30 sample))
     (TimerThread_body (snd (LCUITimer_Reset 1 30 sample))) = [ECondTimedWait 29] \<and>
   LCUITimer_Reset 2 30 sample =
     (0, sample\<lparr>ticks := 1,
                mem := (mem sample)(20 := timerB\<lparr>pause_ms := 0, total_ms := 30, start_time := 100\<rparr>),
                trace := [EMutexLock, ECondSignal, EMutexUnlock]\<rparr>) \<and>
   pause_ms (mem (snd (LCUITimer_Continue 2 (snd (LCUITimer_Reset 2 30 sample)))) 20) = 41 \<and>
   fst (LCUITimer_Reset 5 30 sample) = - 1"
proof -
  have r: "is_running sample" and r': "is_running sample \<or> timer_list sample = []"
    and l: "timer_list sample = [] @ 10 # [20]" "timer_list sample = [10] @ 20 # []"
    and i: "id' (mem sample 10) = 1" "id' (mem sample 20) = 2" "entry_ids sample = [1, 2]"
    and f: "find (\<lambda>node. state (mem sample node) = STATE_RUN) (timer_list sample) = Some 10"
    and p: "state (mem sample 20) = STATE_PAUSE"
    and c: "clock sample 0 = 100" "clock sample (Suc 0) = 101" "mem sample 10 = timerA"
      "mem sample 20 = timerB" "trace sample = []" "ticks sample = 0"
      "pause_time (mem sample 20) = 60"
    by (simp_all add: sample_defs entry_ids_def)
  from LCUITimer_Reset_frame [OF r', of "[]" 10 "[20]" 1 30] l i f
  obtain w1 where a1: "LCUITimer_Reset 1 30 sample = (0, w1)"
    and a2: "w1 = sample\<lparr>ticks := Suc (ticks sample),
                mem := (mem sample)(10 := (mem sample 10)\<lparr>pause_ms := 0, total_ms := 30,
                                                          start_time := clock sample (ticks sample)\<rparr>),
                trace := trace sample @ [EMutexLock, ECondSignal, EMutexUnlock]\<rparr>"
    and a3: "fired w1 10 \<longleftrightarrow> (30 :: 64 word) \<le>s clock sample (Suc (ticks sample)) - clock sample (ticks sample)"
    and a4: "clock sample (Suc (ticks sample)) - clock sample (ticks sample) <s (30 :: 64 word) \<longrightarrow>
                     TimerThread_body w1 =
                       w1\<lparr>ticks := Suc (Suc (ticks sample)),
                          trace := trace w1 @ [ECondTimedWait
                            (30 - (clock sample (Suc (ticks sample)) - clock sample (ticks sample)))]\<rparr>"
    by auto
  have g1: "LCUITimer_Reset 1 30 sample =
     (0, sample\<lparr>ticks := 1,
                mem := (mem sample)(10 := timerA\<lparr>pause_ms := 0, total_ms := 30, start_time := 100\<rparr>),
                trace := [EMutexLock, ECondSignal, EMutexUnlock]\<rparr>)"
    using a1 a2 c by simp
  have g2: "\<not> fired (snd (LCUITimer_Reset 1 30 sample)) 10"
    using a1 a3 c by (simp add: word_sle_eq)
  have "TimerThread_body w1 =
          w1\<lparr>ticks := Suc (Suc (ticks sample)), trace := trace w1 @ [ECondTimedWait 29]\<rparr>"
    using a4 c by (simp add: word_sless_alt)
  then have "new_events w1 (TimerThread_body w1) = [ECondTimedWait 29]"
    by simp
  then have g3: "new_events (snd (LCUITimer_Reset 1 30 sample))
     (TimerThread_body (snd (LCUITimer_Reset 1 30 sample))) = [ECondTimedWait 29]"
    using a1 by simp
  from LCUITimer_Reset_frame [OF r', of "[10]" 20 "[]" 2 30] l i p
  obtain w2 where b1: "LCUITimer_Reset 2 30 sample = (0, w2)"
    and b2: "w2 = sample\<lparr>ticks := Suc (ticks sample),
                mem := (mem sample)(20 := (mem sample 20)\<lparr>pause_ms := 0, total_ms := 30,
                                                          start_time := clock sample (ticks sample)\<rparr>),
                trace := trace sample @ [EMutexLock, ECondSignal, EMutexUnlock]\<rparr>"
    and b3: "pause_ms (mem (snd (LCUITimer_Continue 2 w2)) 20) =
                    clock sample (Suc (ticks sample)) - pause_time (mem sample 20)"
    by auto
  have g4: "LCUITimer_Reset 2 30 sample =
     (0, sample\<lparr>ticks := 1,
                mem := (mem sample)(20 := timerB\<lparr>pause_ms := 0, total_ms := 30, start_time := 100\<rparr>),
                trace := [EMutexLock, ECondSignal, EMutexUnlock]\<rparr>)"
    using b1 b2 c by simp
  have g5: "pause_ms (mem (snd (LCUITimer_Continue 2 (snd (LCUITimer_Reset 2 30 sample)))) 20) = 41"
    using b1 b3 c by simp
  have g6: "fst (LCUITimer_Reset 5 30 sample) = - 1"
    using LCUITimer_Reset_frame [OF r', of "[]" 10 "[20]" 5 30] i by simp
  show ?thesis
    by (intro conjI) (fact r l i f p g1 g2 g3 g4 g5 g6)+
qed

text \<open>The paused entry with id 2, alone in the registry, is reset to 30 ms at time 100 and
  continued at time 115. At time 130 it has run 15 of its 30 ms since the reset, yet the
  timer thread waits 55 ms: the 40 ms of pause before the reset are on \<open>pause_ms\<close>.\<close>

theorem LCUITimer_Reset_paused_counterexample:
  "state (mem solo 20) = STATE_PAUSE \<and> pause_time (mem solo 20) = 60 \<and>
   LCUITimer_Reset 2 30 solo = (0, solo_reset) \<and>
   start_time (mem solo_reset 20) = 100 \<and> total_ms (mem solo_reset 20) = 30 \<and>
   pause_ms (mem solo_reset 20) = 0 \<and> state (mem solo_reset 20) = STATE_PAUSE \<and>
   LCUITimer_Continue 2 solo_reset = (0, solo_resumed) \<and>
   state (mem solo_resumed 20) = STATE_RUN \<and> pause_ms (mem solo_resumed 20) = 55 \<and>
   clock solo_resumed (ticks solo_resumed) = 130 \<and>
   \<not> fired solo_resumed 20 \<and>
   new_events solo_resumed (TimerThread_body solo_resumed) = [ECondTimedWait 55]"
  by (simp add: solo_resumed_def solo_reset_def LCUITimer_Reset_def LCUITimer_Continue_def
      TimerList_Find_def fired_def new_events_def TimerThread_body_def prims Let_def sample_defs)







subsection \<open>Ids that are not in the registry\<close>

text \<open>Claim C10 (as the code has it). Let no entry of the registry carry the id. With the
  service running, \<^verbatim>\<open>LCUITimer_Pause\<close>, \<^verbatim>\<open>LCUITimer_Continue\<close> and
  \<^verbatim>\<open>LCUITimer_Reset\<close> return -1 and change nothing but the trace, on which they
  still signal the wake condition between locking and unlocking; \<^verbatim>\<open>LCUITimer_Free\<close>
  returns -1, changes nothing and unlocks without signalling. With the service not running,
  all four return -1 at the \<^verbatim>\<open>is_running\<close> guard: nothing is locked, signalled or
  changed.\<close>

theorem not_found_signalling:
  assumes "\<forall>p \<in> set (timer_list w). id' (mem w p) \<noteq> timer_id"
  shows "(is_running w \<longrightarrow>
            LCUITimer_Pause timer_id w =
              (- 1, w\<lparr>trace := trace w @ [EMutexLock, ECondSignal, EMutexUnlock]\<rparr>) \<and>
            LCUITimer_Continue timer_id w =
              (- 1, w\<lparr>trace := trace w @ [EMutexLock, ECondSignal, EMutexUnlock]\<rparr>) \<and>
            LCUITimer_Reset timer_id n_ms w =
              (- 1, w\<lparr>trace := trace w @ [EMutexLock, ECondSignal, EMutexUnlock]\<rparr>) \<and>
            LCUITimer_Free timer_id w =
              (- 1, w\<lparr>trace := trace w @ [EMutexLock, EMutexUnlock]\<rparr>)) \<and>
         (\<not> is_running w \<longrightarrow>
            LCUITimer_Pause timer_id w = (- 1, w) \<and>
            LCUITimer_Continue timer_id w = (- 1, w) \<and>
            LCUITimer_Reset timer_id n_ms w = (- 1, w) \<and>
            LCUITimer_Free timer_id w = (- 1, w))"
proof -
  from assms have nf: "TimerList_Find timer_id w = None"
    by (simp add: TimerList_Find_None_iff)
  show ?thesis
  proof (cases "is_running w")
    case True
    with nf show ?thesis
      by (simp add: LCUITimer_Pause_def LCUITimer_Continue_def LCUITimer_Reset_def
          LCUITimer_Free_def Let_def prims)
  next
    case False
    then show ?thesis
      by (simp add: LCUITimer_Pause_def LCUITimer_Continue_def LCUITimer_Reset_def
          LCUITimer_Free_def)
  qed
qed

theorem not_found_signalling_witness:
  "is_running sample \<and> timer_list sample = [10, 20] \<and>
   id' (mem sample 10) = 1 \<and> id' (mem sample 20) = 2 \<and>
   LCUITimer_Pause 5 sample = (- 1, sample\<lparr>trace := [EMutexLock, ECondSignal, EMutexUnlock]\<rparr>) \<and>
   LCUITimer_Continue 5 sample = (- 1, sample\<lparr>trace := [EMutexLock, ECondSignal, EMutexUnlock]\<rparr>) \<and>
   LCUITimer_Reset 5 30 sample = (- 1, sample\<lparr>trace := [EMutexLock, ECondSignal, EMutexUnlock]\<rparr>) \<and>
   LCUITimer_Free 5 sample = (- 1, sample\<lparr>trace := [EMutexLock, EMutexUnlock]\<rparr>) \<and>
   \<not> is_running boot \<and> timer_list boot = [] \<and>
   LCUITimer_Pause 5 boot = (- 1, boot) \<and> LCUITimer_Continue 5 boot = (- 1, boot) \<and>
   LCUITimer_Reset 5 30 boot = (- 1, boot) \<and> LCUITimer_Free 5 boot = (- 1, boot)"
proof -
  have a: "is_running sample" "timer_list sample = [10, 20]"
    "id' (mem sample 10) = 1" "id' (mem sample 20) = 2" "trace sample = []"
    by (simp_all add: sample_defs)
  have b: "\<not> is_running boot" "timer_list boot = []"
    by (simp_all add: boot_def)
  have "\<forall>p \<in> set (timer_list sample). id' (mem sample p) \<noteq> 5"
    by (simp add: a)
  note S = not_found_signalling [OF this, of 30]
  have "\<forall>p \<in> set (timer_list boot). id' (mem boot p) \<noteq> 5"
    by (simp add: b)
  note B = not_found_signalling [OF this, of 30]
  have g: "LCUITimer_Pause 5 sample = (- 1, sample\<lparr>trace := [EMutexLock, ECondSignal, EMutexUnlock]\<rparr>)"
    "LCUITimer_Continue 5 sample = (- 1, sample\<lparr>trace := [EMutexLock, ECondSignal, EMutexUnlock]\<rparr>)"
    "LCUITimer_Reset 5 30 sample = (- 1, sample\<lparr>trace := [EMutexLock, ECondSignal, EMutexUnlock]\<rparr>)"
    "LCUITimer_Free 5 sample = (- 1, sample\<lparr>trace := [EMutexLock, EMutexUnlock]\<rparr>)"
    using S a by simp_all
  have h: "LCUITimer_Pause 5 boot = (- 1, boot)" "LCUITimer_Continue 5 boot = (- 1, boot)"
    "LCUITimer_Reset 5 30 boot = (- 1, boot)" "LCUITimer_Free 5 boot = (- 1, boot)"
    using B b by simp_all
  show ?thesis
    by (intro conjI) (fact a(1-4) b g h)+
qed

text \<open>In the zero-initialised module, which is not running and has an empty registry,
  \<^verbatim>\<open>LCUITimer_Pause\<close>, \<^verbatim>\<open>LCUITimer_Continue\<close> and \<^verbatim>\<open>LCUITimer_Reset\<close> on
  the id 5 return -1 and leave the trace empty: the wake condition is not signalled.\<close>

theorem not_found_stopped_counterexample:
  "\<not> is_running boot \<and> timer_list boot = [] \<and> trace boot = [] \<and>
   fst (LCUITimer_Pause 5 boot) = - 1 \<and>
   ECondSignal \<notin> set (trace (snd (LCUITimer_Pause 5 boot))) \<and>
   fst (LCUITimer_Continue 5 boot) = - 1 \<and>
   ECondSignal \<notin> set (trace (snd (LCUITimer_Continue 5 boot))) \<and>
   fst (LCUITimer_Reset 5 30 boot) = - 1 \<and>
   ECondSignal \<notin> set (trace (snd (LCUITimer_Reset 5 30 boot)))"
  by (simp add: LCUITimer_Pause_def LCUITimer_Continue_def LCUITimer_Reset_def boot_def)

end
